theory Spec2Isabelle
  imports Complex_Main "HOL-Library.Sublist" "HOL-Library.AList"
begin

section \<open>JavaScript values used by the session store\<close>

text \<open>
  A numeric field of a summary is \<open>int option\<close>: \<open>None\<close> is the JavaScript
  \<open>undefined\<close> of an absent property. A relational or strict-equality test with
  \<open>undefined\<close> on one side is false, and \<open>x || 0\<close> is \<open>0\<close> for \<open>undefined\<close>
  and for \<open>0\<close>, and \<open>x\<close> for any other number.
  Strings are byte lists; the model is exact on ASCII text.
\<close>

type_synonym jsnum = "int option"

definition num_lt :: "jsnum \<Rightarrow> int \<Rightarrow> bool" where
  "num_lt a n = (case a of None \<Rightarrow> False | Some x \<Rightarrow> x < n)"

definition num_le :: "jsnum \<Rightarrow> int \<Rightarrow> bool" where
  "num_le a n = (case a of None \<Rightarrow> False | Some x \<Rightarrow> x \<le> n)"

definition num_gt :: "jsnum \<Rightarrow> int \<Rightarrow> bool" where
  "num_gt a n = (case a of None \<Rightarrow> False | Some x \<Rightarrow> n < x)"

definition num_ge :: "jsnum \<Rightarrow> int \<Rightarrow> bool" where
  "num_ge a n = (case a of None \<Rightarrow> False | Some x \<Rightarrow> n \<le> x)"

definition num_eq :: "jsnum \<Rightarrow> int \<Rightarrow> bool" where
  "num_eq a n = (case a of None \<Rightarrow> False | Some x \<Rightarrow> x = n)"

definition num_add :: "jsnum \<Rightarrow> jsnum \<Rightarrow> jsnum" where
  "num_add a b = (case a of None \<Rightarrow> None | Some x \<Rightarrow> (case b of None \<Rightarrow> None | Some y \<Rightarrow> Some (x + y)))"

definition or0 :: "jsnum \<Rightarrow> int" where
  "or0 a = (case a of None \<Rightarrow> 0 | Some x \<Rightarrow> x)"

section \<open>Session summaries\<close>

text \<open>
  The summary object built by \<open>parseRecords\<close> (scanner.js) and mutated by
  \<open>applyTier\<close> (classifier.js). \<open>title\<close> and the classification fields are
  \<open>None\<close> while the property is undefined.
\<close>

record session =
  id_s :: string
  filePath :: string
  shortProject :: string
  category :: string
  title :: "string option"
  fileSizeBytes :: jsnum
  userMessageCount :: jsnum
  assistantMessageCount :: jsnum
  totalRecordCount :: jsnum
  durationMs :: jsnum
  turnCount :: jsnum
  totalToolCalls :: jsnum
  thinkingBlocks :: jsnum
  uniqueFilesCount :: jsnum
  analyzed :: bool
  tierOverride :: "int option"
  tier :: "int option"
  tierLabel :: "string option"
  autoTier :: "int option"
  junkScore :: "real option"
  junkReasons :: "string list"

section \<open>utils.js: junk first-message patterns\<close>

definition is_space :: "char \<Rightarrow> bool" where
  "is_space c = (c \<in> {CHR 0x09, CHR 0x0A, CHR 0x0B, CHR 0x0C, CHR 0x0D, CHR 0x20})"

definition trim :: "string \<Rightarrow> string" where
  "trim s = rev (dropWhile is_space (rev (dropWhile is_space s)))"

definition lower_char :: "char \<Rightarrow> char" where
  "lower_char c = (let n = (of_char c :: nat) in if 65 \<le> n \<and> n \<le> 90 then char_of (n + 32) else c)"

definition lower :: "string \<Rightarrow> string" where
  "lower s = map lower_char s"

text \<open>
  \<open>JUNK_PATTERNS\<close>: twelve anchored regular expressions, in the source's order. Each
  is a whole-string test; the ones flagged \<open>i\<close> ignore ASCII case.
\<close>

definition JUNK_PATTERNS :: "(string \<Rightarrow> bool) list" where
  "JUNK_PATTERNS =
    [ \<lambda>t. lower t = ''init'' \<or> lower t = ''/init'',
      \<lambda>t. lower t = ''exit'',
      \<lambda>t. lower t = ''ls'',
      \<lambda>t. lower t = ''pwd'',
      \<lambda>t. lower t = ''q'',
      \<lambda>t. lower t = ''quit'',
      \<lambda>t. lower t = ''help'' \<or> lower t = ''h'' \<or> lower t = ''/help'' \<or> lower t = ''/h'',
      \<lambda>t. lower t = ''--continue'',
      \<lambda>t. lower t = ''--resume'',
      \<lambda>t. list_all is_space t,
      \<lambda>t. t = ''.'',
      \<lambda>t. lower t = ''test'' ]"

definition isJunkMessage :: "string \<Rightarrow> bool" where
  "isJunkMessage text = (if text = [] then False else list_ex (\<lambda>p. p (trim text)) JUNK_PATTERNS)"

section \<open>classifier.js: the four tiers\<close>

definition TIER_AUTO_DELETE :: int where "TIER_AUTO_DELETE = 1"
definition TIER_SUGGESTED :: int where "TIER_SUGGESTED = 2"
definition TIER_REVIEW :: int where "TIER_REVIEW = 3"
definition TIER_KEEP :: int where "TIER_KEEP = 4"

definition TIER_LABELS :: "int \<Rightarrow> string option" where
  "TIER_LABELS t =
    (if t = TIER_AUTO_DELETE then Some ''auto-delete''
     else if t = TIER_SUGGESTED then Some ''suggested-delete''
     else if t = TIER_REVIEW then Some ''review''
     else if t = TIER_KEEP then Some ''keep''
     else None)"

definition TIER_SCORES :: "int \<Rightarrow> real option" where
  "TIER_SCORES t =
    (if t = TIER_AUTO_DELETE then Some 1.0
     else if t = TIER_SUGGESTED then Some 0.7
     else if t = TIER_REVIEW then Some 0.4
     else if t = TIER_KEEP then Some 0.1
     else None)"

text \<open>
  \<open>isTier1\<close> and \<open>isTier2\<close> push onto the caller's \<open>reasons\<close> array and return
  a boolean; the model returns the boolean together with the array after the call.
\<close>

definition isTier1 :: "session \<Rightarrow> string list \<Rightarrow> bool \<times> string list" where
  "isTier1 s reasons =
    (if category s = ''empty'' then (True, reasons @ [''empty session (no records)''])
     else if category s = ''hook-only'' then (True, reasons @ [''hook-only (system events, no conversation)''])
     else if category s = ''snapshot-only'' then (True, reasons @ [''snapshot-only (file history, no conversation)''])
     else if num_lt (fileSizeBytes s) 1024 \<and> num_eq (userMessageCount s) 0
       then (True, reasons @ [''tiny file with no user messages''])
     else if num_le (totalRecordCount s) 2 \<and> num_eq (userMessageCount s) 0
       then (True, reasons @ [''minimal records, no user messages''])
     else (False, reasons))"

definition isTier4 :: "session \<Rightarrow> bool" where
  "isTier4 s =
    (let turnCount' = or0 (turnCount s);
         toolCalls = or0 (totalToolCalls s);
         thinkingBlocks' = or0 (thinkingBlocks s);
         filesCount = or0 (uniqueFilesCount s)
     in if turnCount' \<ge> 4 then True
        else if toolCalls \<ge> 3 then True
        else if thinkingBlocks' \<ge> 2 then True
        else if filesCount \<ge> 2 then True
        else if num_gt (durationMs s) 300000 then True
        else if num_ge (userMessageCount s) 3 \<and> num_ge (assistantMessageCount s) 3 then True
        else if num_gt (fileSizeBytes s) 50000 \<and> num_ge (userMessageCount s) 2 then True
        else False)"

definition title_truthy :: "string option \<Rightarrow> bool" where
  "title_truthy t = (case t of None \<Rightarrow> False | Some x \<Rightarrow> x \<noteq> [])"

definition title_text :: "string option \<Rightarrow> string" where
  "title_text t = (case t of None \<Rightarrow> [] | Some x \<Rightarrow> x)"

definition isTier2 :: "session \<Rightarrow> string list \<Rightarrow> bool \<times> string list" where
  "isTier2 s reasons =
    (if num_eq (userMessageCount s) 1 \<and> num_le (assistantMessageCount s) 1 \<and> num_lt (durationMs s) 60000
       then (True, reasons @ [''single brief exchange (< 1 min)''])
     else if title_truthy (title s) \<and> isJunkMessage (title_text (title s))
       then (True, reasons @ [''junk pattern: '' @ [CHR 0x22] @ title_text (title s) @ [CHR 0x22]])
     else if num_gt (userMessageCount s) 0 \<and> num_eq (assistantMessageCount s) 0
       then (True, reasons @ [''no assistant response (abandoned)''])
     else if or0 (totalToolCalls s) = 0 \<and> num_le (userMessageCount s) 2 \<and> num_lt (durationMs s) 120000
       then (True, reasons @ [''short session with no tool usage''])
     else if num_lt (fileSizeBytes s) 4096
             \<and> num_le (num_add (userMessageCount s) (assistantMessageCount s)) 2
       then (True, reasons @ [''tiny session (< 4KB, '' @ [CHR 0xE2, CHR 0x89, CHR 0xA4] @ '' 2 messages)''])
     else (False, reasons))"

definition computeReviewReasons :: "session \<Rightarrow> string list \<Rightarrow> string list" where
  "computeReviewReasons s reasons =
    (let r1 = (if num_le (userMessageCount s) 2 then reasons @ [''few user messages''] else reasons);
         r2 = (if num_lt (durationMs s) 120000 \<and> num_gt (durationMs s) 0 then r1 @ [''short duration''] else r1);
         r3 = (if num_eq (assistantMessageCount s) 0 then r2 @ [''no assistant response''] else r2)
     in if length r3 = 0 then r3 @ [''needs manual review''] else r3)"

definition applyTier :: "session \<Rightarrow> int \<Rightarrow> string list \<Rightarrow> session" where
  "applyTier s t reasons =
    (let effectiveTier = (case tierOverride s of Some ov \<Rightarrow> ov | None \<Rightarrow> t)
     in s\<lparr> tier := Some effectiveTier,
           tierLabel := TIER_LABELS effectiveTier,
           autoTier := Some t,
           junkScore := TIER_SCORES effectiveTier,
           junkReasons := reasons \<rparr>)"

definition classify :: "session \<Rightarrow> session" where
  "classify s =
    (let reasons = [] in
     case isTier1 s reasons of
       (True, reasons1) \<Rightarrow> applyTier s TIER_AUTO_DELETE reasons1
     | (False, reasons1) \<Rightarrow>
         if isTier4 s then applyTier s TIER_KEEP []
         else (case isTier2 s reasons1 of
                 (True, reasons2) \<Rightarrow> applyTier s TIER_SUGGESTED reasons2
               | (False, reasons2) \<Rightarrow> applyTier s TIER_REVIEW (computeReviewReasons s reasons2)))"

definition classifyAll :: "session list \<Rightarrow> session list" where
  "classifyAll sessions = map classify sessions"

text \<open>
  \<open>junkLabel(score)\<close>: the score of a session whose effective tier is outside the score
  table is undefined, and every comparison with it is false. The scores and the two
  thresholds are decimal literals; they are modelled by the rationals they denote, which
  stand in the same order as the doubles nearest to them.
\<close>

definition junkLabel :: "real option \<Rightarrow> string" where
  "junkLabel score =
    (case score of
       None \<Rightarrow> ''real''
     | Some x \<Rightarrow> if x \<ge> 0.6 then ''junk'' else if x \<ge> 0.3 then ''maybe'' else ''real'')"

text \<open>The summary a scan produces before classification, with the given fields set.\<close>

definition blank :: session where
  "blank = \<lparr> id_s = '''', filePath = '''', shortProject = '''', category = ''conversation'',
             title = None, fileSizeBytes = None, userMessageCount = None,
             assistantMessageCount = None, totalRecordCount = None, durationMs = None,
             turnCount = None, totalToolCalls = None, thinkingBlocks = None,
             uniqueFilesCount = None, analyzed = False, tierOverride = None, tier = None,
             tierLabel = None, autoTier = None, junkScore = None, junkReasons = [] \<rparr>"





text \<open>Sample summaries: the ones of classifier.test.js and a fast-scan summary with gaps.\<close>

definition ex_empty :: session where
  "ex_empty = blank\<lparr> category := ''empty'', turnCount := Some 100 \<rparr>"


definition ex_keep :: session where
  "ex_keep = blank\<lparr> fileSizeBytes := Some 10000, userMessageCount := Some 2,
      assistantMessageCount := Some 2, durationMs := Some 180000, turnCount := Some 4,
      title := Some ''Fix the widget component'' \<rparr>"

section \<open>analyzer.js: language guess\<close>






section \<open>scanner.js: head and tail of a file, fast scan\<close>

text \<open>
  A file is the list of its lines, as \<open>readline\<close> yields them. \<open>read_loop\<close> is the
  \<open>for await\<close> loop of \<open>readHeadTail\<close> over the state (lineNum, lines, tailBuffer).
\<close>

fun read_loop :: "nat \<Rightarrow> nat \<Rightarrow> string list \<Rightarrow> nat \<times> string list \<times> string list
    \<Rightarrow> nat \<times> string list \<times> string list" where
  "read_loop headCount tailCount [] st = st"
| "read_loop headCount tailCount (line # rest) (lineNum, lines, tailBuffer) =
     (let lineNum' = lineNum + 1 in
      if lineNum' \<le> headCount
      then read_loop headCount tailCount rest (lineNum', lines @ [line], tailBuffer)
      else (let pushed = tailBuffer @ [line];
                shifted = (if length pushed > tailCount then tl pushed else pushed)
            in read_loop headCount tailCount rest (lineNum', lines, shifted)))"

definition readHeadTail :: "string list \<Rightarrow> nat \<Rightarrow> nat \<Rightarrow> string list" where
  "readHeadTail file headCount tailCount =
     (case read_loop headCount tailCount file (0, [], []) of
        (lineNum, lines, tailBuffer) \<Rightarrow> lines @ filter (\<lambda>tl. tl \<notin> set lines) tailBuffer)"

text \<open>
  A parsed log record, with the two properties \<open>parseRecords\<close> reads for its counts and
  category: \<open>rec.type\<close> and \<open>rec.data?.type\<close>.
\<close>

record log_record =
  rtype :: string
  data_type :: string

text \<open>
  The counts and the category of \<open>parseRecords\<close> (title, timestamps, token totals and
  the deep analysis are left out).
\<close>

record scan_counts =
  sc_totalRecordCount :: nat
  sc_userMessageCount :: nat
  sc_assistantMessageCount :: nat
  sc_category :: string

definition parseRecords :: "log_record list \<Rightarrow> scan_counts" where
  "parseRecords records =
     (let hasUserMessage = list_ex (\<lambda>r. rtype r = ''user'') records;
          hasAssistantMessage = list_ex (\<lambda>r. rtype r = ''assistant'') records;
          hasProgress = list_ex (\<lambda>r. rtype r = ''progress'') records;
          hasHookProgress = list_ex (\<lambda>r. rtype r = ''progress'' \<and> data_type r = ''hook_progress'') records
      in \<lparr> sc_totalRecordCount = length records,
           sc_userMessageCount = length (filter (\<lambda>r. rtype r = ''user'') records),
           sc_assistantMessageCount = length (filter (\<lambda>r. rtype r = ''assistant'') records),
           sc_category =
             (if \<not> hasUserMessage \<and> \<not> hasAssistantMessage \<and> \<not> hasProgress then ''empty''
              else if hasUserMessage \<or> hasAssistantMessage then ''conversation''
              else if hasHookProgress \<and> \<not> hasUserMessage then ''hook-only''
              else ''snapshot-only'') \<rparr>)"

text \<open>
  \<open>JSON.parse\<close> is a parameter: \<open>None\<close> where it throws, and the line is skipped.
\<close>

definition parse_lines :: "(string \<Rightarrow> log_record option) \<Rightarrow> string list \<Rightarrow> log_record list" where
  "parse_lines parse lines = List.map_filter parse lines"

definition fastScan :: "(string \<Rightarrow> log_record option) \<Rightarrow> string list \<Rightarrow> scan_counts" where
  "fastScan parse file = parseRecords (parse_lines parse (readHeadTail file 30 10))"

definition fullScan :: "(string \<Rightarrow> log_record option) \<Rightarrow> string list \<Rightarrow> scan_counts" where
  "fullScan parse file = parseRecords (parse_lines parse (filter (\<lambda>l. trim l \<noteq> []) file))"

text \<open>The last \<open>k\<close> elements of a list.\<close>

definition lastn :: "nat \<Rightarrow> 'a list \<Rightarrow> 'a list" where
  "lastn k xs = drop (length xs - k) xs"

text \<open>
  A sample log: a user line, 29 assistant lines, and the same user line again as line 31.
\<close>

definition user_line :: string where
  "user_line = ''{'' @ [CHR 0x22] @ ''type'' @ [CHR 0x22] @ '':'' @ [CHR 0x22] @ ''user'' @ [CHR 0x22] @ ''}''"

definition assistant_line :: string where
  "assistant_line = ''{'' @ [CHR 0x22] @ ''type'' @ [CHR 0x22] @ '':'' @ [CHR 0x22] @ ''assistant'' @ [CHR 0x22] @ ''}''"

definition ex_parse :: "string \<Rightarrow> log_record option" where
  "ex_parse line =
     (if line = user_line then Some \<lparr> rtype = ''user'', data_type = [] \<rparr>
      else if line = assistant_line then Some \<lparr> rtype = ''assistant'', data_type = [] \<rparr>
      else None)"

definition ex_file :: "string list" where
  "ex_file = user_line # replicate 29 assistant_line @ [user_line]"

section \<open>cache.js: the scan cache\<close>

text \<open>
  \<open>stat\<close> of the live file system: \<open>None\<close> where it throws. The in-memory cache is the
  object \<open>cache.sessions\<close>, keyed by file path.
\<close>

record fileInfo =
  mtimeMs :: rat
  size_i :: int

record cache_entry =
  mtime :: rat
  size_e :: int
  data :: session

type_synonym disk = "string \<rightharpoonup> fileInfo"
type_synonym cache = "string \<rightharpoonup> cache_entry"

definition isValid :: "cache_entry \<Rightarrow> fileInfo \<Rightarrow> bool" where
  "isValid entry info = (mtime entry = mtimeMs info \<and> size_e entry = size_i info)"

text \<open>\<open>getCached\<close> returns the summary or null, and may delete from the cache.\<close>

definition getCached :: "disk \<Rightarrow> cache \<Rightarrow> string \<Rightarrow> bool \<Rightarrow> session option \<times> cache" where
  "getCached st c path requireAnalyzed =
     (case c path of
        None \<Rightarrow> (None, c)
      | Some entry \<Rightarrow>
          if requireAnalyzed \<and> \<not> analyzed (data entry) then (None, c)
          else (case st path of
                  Some info \<Rightarrow> if isValid entry info then (Some (data entry), c) else (None, c)
                | None \<Rightarrow> (None, c(path := None))))"

definition setCached :: "disk \<Rightarrow> cache \<Rightarrow> string \<Rightarrow> session \<Rightarrow> cache" where
  "setCached st c path d =
     (case st path of
        Some info \<Rightarrow> c(path \<mapsto> \<lparr> mtime = mtimeMs info, size_e = size_i info, data = d \<rparr>)
      | None \<Rightarrow> c)"

text \<open>A sample: one file, cached, then grown by one byte.\<close>

definition ex_path :: string where
  "ex_path = ''/home/u/.claude/projects/p/abc.jsonl''"

definition ex_disk :: disk where
  "ex_disk = [ex_path \<mapsto> \<lparr> mtimeMs = 1000, size_i = 17 \<rparr>]"

definition ex_disk_grown :: disk where
  "ex_disk_grown = [ex_path \<mapsto> \<lparr> mtimeMs = 1000, size_i = 18 \<rparr>]"

section \<open>Paths: the functions of node:path that cleanup.js and utils.js call\<close>

text \<open>
  POSIX behaviour. A path string denotes a sequence of components: the pieces between
  slashes, empty pieces dropped. \<open>norm_acc\<close> resolves \<open>.\<close> and \<open>..\<close> from left to
  right (\<open>..\<close> at the root stays at the root). The file system is keyed by resolved
  component sequences, which is what the operating system makes of a path string (there
  are no symbolic links in the model).
\<close>

fun split_on :: "char \<Rightarrow> string \<Rightarrow> string list" where
  "split_on c [] = [[]]"
| "split_on c (x # xs) =
     (if x = c then [] # split_on c xs
      else (case split_on c xs of p # ps \<Rightarrow> (x # p) # ps | [] \<Rightarrow> [[x]]))"

definition comps :: "string \<Rightarrow> string list" where
  "comps p = filter (\<lambda>c. c \<noteq> []) (split_on CHR ''/'' p)"

fun norm_acc :: "string list \<Rightarrow> string list \<Rightarrow> string list" where
  "norm_acc acc [] = rev acc"
| "norm_acc acc (c # cs) =
     (if c = ''.'' then norm_acc acc cs
      else if c = ''..'' then norm_acc (tl acc) cs
      else norm_acc (c # acc) cs)"

definition isAbsolute :: "string \<Rightarrow> bool" where
  "isAbsolute p = (case p of [] \<Rightarrow> False | c # _ \<Rightarrow> c = CHR ''/'')"

definition path_str :: "string list \<Rightarrow> string" where
  "path_str cs = (if cs = [] then ''/'' else concat (map (\<lambda>c. CHR ''/'' # c) cs))"

definition rel_str :: "string list \<Rightarrow> string" where
  "rel_str cs = (if cs = [] then [] else tl (concat (map (\<lambda>c. CHR ''/'' # c) cs)))"

text \<open>\<open>basename\<close>: the last component, without trailing slashes.\<close>

definition basename :: "string \<Rightarrow> string" where
  "basename p = (case comps p of [] \<Rightarrow> [] | c # cs \<Rightarrow> last (c # cs))"

text \<open>
  \<open>join\<close>, \<open>dirname\<close> and \<open>resolve\<close> for an absolute first argument: \<open>homedir()\<close> is
  absolute, and every call site joins onto, or takes the directory of, a path built
  from it, or an absolute path of the manifest.
\<close>

definition join_path :: "string \<Rightarrow> string \<Rightarrow> string" where
  "join_path a b = path_str (norm_acc [] (comps a @ comps b))"

definition dirname :: "string \<Rightarrow> string" where
  "dirname p = path_str (butlast (comps p))"

text \<open>\<open>resolve_key cwd p\<close>: the component sequence a path string resolves to.\<close>

definition resolve_key :: "string \<Rightarrow> string \<Rightarrow> string list" where
  "resolve_key wd p = norm_acc [] (if isAbsolute p then comps p else comps wd @ comps p)"

definition resolve_path :: "string \<Rightarrow> string \<Rightarrow> string" where
  "resolve_path base p = path_str (resolve_key base p)"

text \<open>
  \<open>relative(from, to)\<close>: both resolved, the common prefix dropped, one \<open>..\<close> for each
  remaining component of \<open>from\<close>; the empty string when they are equal.
\<close>

definition relative_path :: "string \<Rightarrow> string \<Rightarrow> string \<Rightarrow> string" where
  "relative_path wd from to =
     (let f = resolve_key wd from; t = resolve_key wd to;
          n = length (longest_common_prefix f t)
      in rel_str (replicate (length f - n) ''..'' @ drop n t))"

text \<open>\<open>String.prototype.replace\<close> with a string pattern: the first occurrence only.\<close>

fun replace_first :: "string \<Rightarrow> string \<Rightarrow> string \<Rightarrow> string" where
  "replace_first pat rep [] = (if pat = [] then rep else [])"
| "replace_first pat rep (x # xs) =
     (if prefix pat (x # xs) then rep @ drop (length pat) (x # xs)
      else x # replace_first pat rep xs)"

text \<open>
  A segment is what stands between two slashes; an entry name is a segment other than
  \<open>.\<close> and \<open>..\<close>, the kind of name \<open>readdir\<close> returns.
\<close>

definition segment :: "string \<Rightarrow> bool" where
  "segment c = (c \<noteq> [] \<and> CHR ''/'' \<notin> set c)"

definition entry_name :: "string \<Rightarrow> bool" where
  "entry_name c = (segment c \<and> c \<noteq> ''.'' \<and> c \<noteq> ''..'')"

section \<open>utils.js: the directories of the tool\<close>

record env =
  home :: string
  cwd :: string

definition CLAUDE_DIR :: "env \<Rightarrow> string" where
  "CLAUDE_DIR E = join_path (home E) ''.claude''"

definition PROJECTS_DIR :: "env \<Rightarrow> string" where
  "PROJECTS_DIR E = join_path (CLAUDE_DIR E) ''projects''"

definition TOOL_DIR :: "env \<Rightarrow> string" where
  "TOOL_DIR E = join_path (join_path (CLAUDE_DIR E) ''tools'') ''csesh''"

definition TRASH_DIR :: "env \<Rightarrow> string" where
  "TRASH_DIR E = join_path (TOOL_DIR E) ''trash''"

definition TRASH_MANIFEST :: "env \<Rightarrow> string" where
  "TRASH_MANIFEST E = join_path (TOOL_DIR E) ''trash-manifest.json''"

text \<open>The components of the home directory.\<close>

definition home_key :: "env \<Rightarrow> string list" where
  "home_key E = norm_acc [] (comps (home E))"

section \<open>The file system\<close>

text \<open>
  One entry of the trash manifest, as \<open>trashSession\<close> pushes it.
\<close>

record trash_item =
  item_id :: string
  originalPath :: string
  trashPath :: string
  trashedAt :: string
  reason :: string
  item_junkScore :: "real option"
  item_junkReasons :: "string list"
  item_fileSizeBytes :: jsnum
  item_title :: "string option"
  project :: string

text \<open>
  A regular file holds text, or the manifest object \<open>{items: [...]}\<close> as
  \<open>JSON.stringify\<close> writes it and \<open>JSON.parse\<close> reads it back. Text that is not the
  JSON of a manifest makes \<open>loadManifest\<close> fall back to the empty manifest.
  A directory's children are the entries whose key extends the directory's key.
  \<open>readonly\<close> holds the files that cannot be written (\<open>writeFile\<close> fails with EACCES).
\<close>

datatype content = Text string | Journal "trash_item list"

datatype node = File content | Dir

record filesystem =
  nodes :: "(string list \<times> node) list"
  readonly :: "string list list"

datatype error = ENOENT | EEXIST | EISDIR | ENOTDIR | ENOTEMPTY | EINVAL | EBUSY | EACCES
  | NotFound string

text \<open>The root directory always exists.\<close>

definition node_at :: "filesystem \<Rightarrow> string list \<Rightarrow> node option" where
  "node_at fs k = (if k = [] then Some Dir else map_of (nodes fs) k)"

definition is_file :: "filesystem \<Rightarrow> string list \<Rightarrow> bool" where
  "is_file fs k = (case node_at fs k of Some (File c) \<Rightarrow> True | _ \<Rightarrow> False)"

definition is_dir :: "filesystem \<Rightarrow> string list \<Rightarrow> bool" where
  "is_dir fs k = (node_at fs k = Some Dir)"

definition has_children :: "filesystem \<Rightarrow> string list \<Rightarrow> bool" where
  "has_children fs k = list_ex (\<lambda>(q, n). strict_prefix k q) (nodes fs)"

text \<open>\<open>mkdir(p, {recursive: true})\<close>: fails when a file is in the way.\<close>

definition mkdir_key :: "string list \<Rightarrow> filesystem \<Rightarrow> error + filesystem" where
  "mkdir_key k fs =
     (if is_file fs k then Inl EEXIST
      else if list_ex (is_file fs) (prefixes k) then Inl ENOTDIR
      else Inr (fs\<lparr> nodes := foldl (\<lambda>m p. AList.update p Dir m) (nodes fs) (tl (prefixes k)) \<rparr>))"

text \<open>
  Moving the tree at \<open>s\<close> to \<open>d\<close>: what was at or below \<open>d\<close> goes, every entry at or
  below \<open>s\<close> gets \<open>d\<close> in place of \<open>s\<close>.
\<close>

definition move_tree :: "string list \<Rightarrow> string list \<Rightarrow> (string list \<times> node) list
    \<Rightarrow> (string list \<times> node) list" where
  "move_tree s d al =
     map (\<lambda>(q, n). if prefix s q then (d @ drop (length s) q, n) else (q, n))
       (filter (\<lambda>(q, n). \<not> prefix d q) al)"

text \<open>
  \<open>rename(2)\<close>: a file replaces an existing file at the destination; a directory moves
  with everything below it, onto nothing or onto an empty directory.
\<close>

definition rename_key :: "string list \<Rightarrow> string list \<Rightarrow> filesystem \<Rightarrow> error + filesystem" where
  "rename_key s d fs =
     (if s = [] then Inl EBUSY
      else case map_of (nodes fs) s of
        None \<Rightarrow> Inl ENOENT
      | Some n \<Rightarrow>
          if s = d then Inr fs
          else if d = [] then Inl EBUSY
          else if \<not> is_dir fs (butlast d) then Inl ENOENT
          else (case n of
                  File c \<Rightarrow>
                    if is_dir fs d then Inl EISDIR
                    else Inr (fs\<lparr> nodes := AList.update d (File c) (AList.delete s (nodes fs)) \<rparr>)
                | Dir \<Rightarrow>
                    if prefix s d then Inl EINVAL
                    else if is_file fs d then Inl ENOTDIR
                    else if has_children fs d then Inl ENOTEMPTY
                    else Inr (fs\<lparr> nodes := move_tree s d (nodes fs) \<rparr>)))"



definition readFile_key :: "string list \<Rightarrow> filesystem \<Rightarrow> error + content" where
  "readFile_key k fs =
     (case node_at fs k of
        None \<Rightarrow> Inl ENOENT
      | Some Dir \<Rightarrow> Inl EISDIR
      | Some (File c) \<Rightarrow> Inr c)"

definition writeFile_key :: "string list \<Rightarrow> content \<Rightarrow> filesystem \<Rightarrow> error + filesystem" where
  "writeFile_key k c fs =
     (if is_dir fs k then Inl EISDIR
      else if \<not> is_dir fs (butlast k) then Inl ENOENT
      else if k \<in> set (readonly fs) then Inl EACCES
      else Inr (fs\<lparr> nodes := AList.update k (File c) (nodes fs) \<rparr>))"

text \<open>The calls of fs/promises, on path strings resolved against the working directory.\<close>

definition mkdir :: "env \<Rightarrow> string \<Rightarrow> filesystem \<Rightarrow> error + filesystem" where
  "mkdir E p fs = mkdir_key (resolve_key (cwd E) p) fs"

definition rename :: "env \<Rightarrow> string \<Rightarrow> string \<Rightarrow> filesystem \<Rightarrow> error + filesystem" where
  "rename E src dst fs = rename_key (resolve_key (cwd E) src) (resolve_key (cwd E) dst) fs"

definition stat :: "env \<Rightarrow> string \<Rightarrow> filesystem \<Rightarrow> node option" where
  "stat E p fs = node_at fs (resolve_key (cwd E) p)"



definition readFile :: "env \<Rightarrow> string \<Rightarrow> filesystem \<Rightarrow> error + content" where
  "readFile E p fs = readFile_key (resolve_key (cwd E) p) fs"

definition writeFile :: "env \<Rightarrow> string \<Rightarrow> content \<Rightarrow> filesystem \<Rightarrow> error + filesystem" where
  "writeFile E p c fs = writeFile_key (resolve_key (cwd E) p) c fs"

section \<open>cleanup.js: trash, restore, purge\<close>

definition resolveOriginalPath :: "env \<Rightarrow> string \<Rightarrow> string" where
  "resolveOriginalPath E storedPath =
     (if isAbsolute storedPath then storedPath
      else resolve_path (PROJECTS_DIR E) storedPath)"

definition loadManifest :: "env \<Rightarrow> filesystem \<Rightarrow> trash_item list" where
  "loadManifest E fs =
     (case readFile E (TRASH_MANIFEST E) fs of
        Inr (Journal items) \<Rightarrow> items
      | _ \<Rightarrow> [])"

text \<open>
  A composite operation returns its result, or the error it throws, together with the
  file system as it is at that moment.
\<close>

definition saveManifest :: "env \<Rightarrow> trash_item list \<Rightarrow> filesystem \<Rightarrow> (error + unit) \<times> filesystem" where
  "saveManifest E items fs =
     (case mkdir E (TRASH_DIR E) fs of
        Inl e \<Rightarrow> (Inl e, fs)
      | Inr fs1 \<Rightarrow>
          (case writeFile E (TRASH_MANIFEST E) (Journal items) fs1 of
             Inl e \<Rightarrow> (Inl e, fs1)
           | Inr fs2 \<Rightarrow> (Inr (), fs2)))"

text \<open>
  \<open>try { if ((await stat(src)).isDirectory()) await rename(src, dst) } catch {}\<close>
\<close>

definition move_companion :: "env \<Rightarrow> string \<Rightarrow> string \<Rightarrow> filesystem \<Rightarrow> filesystem" where
  "move_companion E src dst fs =
     (case stat E src fs of
        Some Dir \<Rightarrow> (case rename E src dst fs of Inl e \<Rightarrow> fs | Inr fs' \<Rightarrow> fs')
      | _ \<Rightarrow> fs)"

definition new_item :: "env \<Rightarrow> string \<Rightarrow> session \<Rightarrow> string \<Rightarrow> string \<Rightarrow> trash_item" where
  "new_item E now session reason' trashPath' =
     \<lparr> item_id = id_s session,
       originalPath = relative_path (cwd E) (PROJECTS_DIR E) (filePath session),
       trashPath = trashPath',
       trashedAt = now,
       reason = reason',
       item_junkScore = junkScore session,
       item_junkReasons = junkReasons session,
       item_fileSizeBytes = fileSizeBytes session,
       item_title = title session,
       project = shortProject session \<rparr>"

definition trashSession :: "env \<Rightarrow> string \<Rightarrow> session \<Rightarrow> string \<Rightarrow> filesystem
    \<Rightarrow> (error + string \<times> string) \<times> filesystem" where
  "trashSession E now session reason' fs =
     (case mkdir E (TRASH_DIR E) fs of
        Inl e \<Rightarrow> (Inl e, fs)
      | Inr fs1 \<Rightarrow>
          (let fileName = basename (filePath session);
               trashPath' = join_path (TRASH_DIR E) fileName
           in case rename E (filePath session) trashPath' fs1 of
                Inl e \<Rightarrow> (Inl e, fs1)
              | Inr fs2 \<Rightarrow>
                  (let companionDir = replace_first ''.jsonl'' [] (filePath session);
                       fs3 = move_companion E companionDir
                               (join_path (TRASH_DIR E) (basename companionDir)) fs2;
                       manifest = loadManifest E fs3;
                       pushed = manifest @ [new_item E now session reason' trashPath']
                   in case saveManifest E pushed fs3 of
                        (Inl e, fs4) \<Rightarrow> (Inl e, fs4)
                      | (Inr u, fs4) \<Rightarrow> (Inr (id_s session, trashPath'), fs4))))"

fun findIndex :: "('a \<Rightarrow> bool) \<Rightarrow> 'a list \<Rightarrow> nat option" where
  "findIndex P [] = None"
| "findIndex P (x # xs) = (if P x then Some 0 else map_option Suc (findIndex P xs))"

text \<open>\<open>items.splice(idx, 1)\<close>\<close>

definition splice1 :: "nat \<Rightarrow> 'a list \<Rightarrow> 'a list" where
  "splice1 idx xs = take idx xs @ drop (Suc idx) xs"

definition restoreSession :: "env \<Rightarrow> string \<Rightarrow> filesystem
    \<Rightarrow> (error + string \<times> string) \<times> filesystem" where
  "restoreSession E ident fs =
     (let manifest = loadManifest E fs in
      case findIndex (\<lambda>i. item_id i = ident) manifest of
        None \<Rightarrow> (Inl (NotFound ident), fs)
      | Some idx \<Rightarrow>
          (let item = manifest ! idx;
               original = resolveOriginalPath E (originalPath item)
           in case mkdir E (dirname original) fs of
                Inl e \<Rightarrow> (Inl e, fs)
              | Inr fs1 \<Rightarrow>
                  (case rename E (trashPath item) original fs1 of
                     Inl e \<Rightarrow> (Inl e, fs1)
                   | Inr fs2 \<Rightarrow>
                       (let companionTrash = replace_first ''.jsonl'' [] (trashPath item);
                            companionOriginal = replace_first ''.jsonl'' [] original;
                            fs3 = move_companion E companionTrash companionOriginal fs2
                        in case saveManifest E (splice1 idx manifest) fs3 of
                             (Inl e, fs4) \<Rightarrow> (Inl e, fs4)
                           | (Inr u, fs4) \<Rightarrow> (Inr (ident, original), fs4)))))"

definition listTrash :: "env \<Rightarrow> filesystem \<Rightarrow> trash_item list" where
  "listTrash E fs = loadManifest E fs"



text \<open>The content of the regular file at a key, if there is one.\<close>

definition file_at :: "filesystem \<Rightarrow> string list \<Rightarrow> content option" where
  "file_at fs k = (case node_at fs k of Some (File c) \<Rightarrow> Some c | _ \<Rightarrow> None)"

text \<open>
  The places \<open>trashSession\<close> touches for a session: its file, the slot in the trash
  directory, the companion directory and its slot, the trash directory and the manifest.
\<close>

definition session_key :: "env \<Rightarrow> session \<Rightarrow> string list" where
  "session_key E s = resolve_key (cwd E) (filePath s)"

definition trash_key :: "env \<Rightarrow> session \<Rightarrow> string list" where
  "trash_key E s = resolve_key (cwd E) (join_path (TRASH_DIR E) (basename (filePath s)))"

definition companion_key :: "env \<Rightarrow> session \<Rightarrow> string list" where
  "companion_key E s = resolve_key (cwd E) (replace_first ''.jsonl'' [] (filePath s))"

definition companion_trash_key :: "env \<Rightarrow> session \<Rightarrow> string list" where
  "companion_trash_key E s =
     resolve_key (cwd E)
       (join_path (TRASH_DIR E) (basename (replace_first ''.jsonl'' [] (filePath s))))"

definition trash_dir_key :: "env \<Rightarrow> string list" where
  "trash_dir_key E = resolve_key (cwd E) (TRASH_DIR E)"

definition manifest_key :: "env \<Rightarrow> string list" where
  "manifest_key E = resolve_key (cwd E) (TRASH_MANIFEST E)"

text \<open>
  The session's file is not its own trash slot and not an ancestor of the trash
  directory; the manifest is not at or below the file or the slot; and none of the
  three is at or below the companion directory or the companion's slot. A session file
  \<open>projects/<slug>/<uuid>.jsonl\<close> found by the scanner is of this kind.
\<close>

definition separate_paths :: "env \<Rightarrow> session \<Rightarrow> bool" where
  "separate_paths E s =
     (session_key E s \<noteq> trash_key E s
      \<and> \<not> prefix (session_key E s) (trash_dir_key E)
      \<and> \<not> prefix (session_key E s) (manifest_key E)
      \<and> \<not> prefix (trash_key E s) (manifest_key E)
      \<and> list_all (\<lambda>q. \<not> prefix (companion_key E s) q \<and> \<not> prefix (companion_trash_key E s) q)
            [session_key E s, trash_key E s, manifest_key E])"


text \<open>
  The path \<open>restoreSession\<close> moves a trashed session back to: the stored relative
  path, resolved against the projects directory.
\<close>

definition restored_path :: "env \<Rightarrow> session \<Rightarrow> string" where
  "restored_path E s =
     resolveOriginalPath E (relative_path (cwd E) (PROJECTS_DIR E) (filePath s))"

text \<open>
  A session as \<open>findSessionFiles\<close> builds it from the directory entries \<open>slug\<close> and
  \<open>stem.jsonl\<close>, where the first \<open>.jsonl\<close> of its path, and of the path of its trash
  slot, is the extension of the file name.
\<close>

definition plain_session :: "env \<Rightarrow> string \<Rightarrow> string \<Rightarrow> session \<Rightarrow> bool" where
  "plain_session E slug stem s =
     (entry_name slug \<and> entry_name stem
      \<and> filePath s = join_path (join_path (PROJECTS_DIR E) slug) (stem @ ''.jsonl'')
      \<and> id_s s = replace_first ''.jsonl'' [] (stem @ ''.jsonl'')
      \<and> replace_first ''.jsonl'' [] (filePath s) = join_path (join_path (PROJECTS_DIR E) slug) stem
      \<and> replace_first ''.jsonl'' [] (join_path (TRASH_DIR E) (stem @ ''.jsonl''))
          = join_path (TRASH_DIR E) stem)"

text \<open>
  The companion paths of \<open>restoreSession\<close> are not at or above the session's file.
\<close>

definition separate_restore_paths :: "env \<Rightarrow> session \<Rightarrow> bool" where
  "separate_restore_paths E s =
     (\<not> prefix (resolve_key (cwd E) (replace_first ''.jsonl'' []
                   (join_path (TRASH_DIR E) (basename (filePath s))))) (session_key E s)
      \<and> \<not> prefix (resolve_key (cwd E) (replace_first ''.jsonl'' [] (restored_path E s)))
            (session_key E s))"

section \<open>A sample home directory\<close>

text \<open>
  Two projects \<open>pa\<close> and \<open>pb\<close>, each holding a session file \<open>abc.jsonl\<close>.
\<close>

definition E0 :: env where
  "E0 = \<lparr> home = ''/home/u'', cwd = ''/'' \<rparr>"

definition path_A :: string where
  "path_A = ''/home/u/.claude/projects/pa/abc.jsonl''"

definition path_B :: string where
  "path_B = ''/home/u/.claude/projects/pb/abc.jsonl''"

definition trash_path :: string where
  "trash_path = ''/home/u/.claude/tools/csesh/trash/abc.jsonl''"

definition key_A :: "string list" where
  "key_A = [''home'', ''u'', ''.claude'', ''projects'', ''pa'', ''abc.jsonl'']"

definition key_B :: "string list" where
  "key_B = [''home'', ''u'', ''.claude'', ''projects'', ''pb'', ''abc.jsonl'']"

definition key_tools :: "string list" where
  "key_tools = [''home'', ''u'', ''.claude'', ''tools'']"

definition key_trash :: "string list" where
  "key_trash = key_tools @ [''csesh'', ''trash'', ''abc.jsonl'']"


definition fs_start :: filesystem where
  "fs_start =
     \<lparr> nodes = [ ([''home''], Dir), ([''home'', ''u''], Dir),
                 ([''home'', ''u'', ''.claude''], Dir),
                 ([''home'', ''u'', ''.claude'', ''projects''], Dir),
                 ([''home'', ''u'', ''.claude'', ''projects'', ''pa''], Dir),
                 ([''home'', ''u'', ''.claude'', ''projects'', ''pb''], Dir),
                 (key_A, File (Text ''A'')),
                 (key_B, File (Text ''B'')) ],
       readonly = [] \<rparr>"

definition session_A :: session where
  "session_A = blank\<lparr> id_s := ''abc'', filePath := path_A, shortProject := ''pa'' \<rparr>"

definition session_B :: session where
  "session_B = blank\<lparr> id_s := ''abc'', filePath := path_B, shortProject := ''pb'' \<rparr>"

text \<open>Session A is trashed, then session B, then \<open>abc\<close> is restored.\<close>

definition fs_A_trashed :: filesystem where
  "fs_A_trashed = snd (trashSession E0 ''t1'' session_A ''manual'' fs_start)"

definition fs_B_trashed :: filesystem where
  "fs_B_trashed = snd (trashSession E0 ''t2'' session_B ''manual'' fs_A_trashed)"

definition fs_restored :: filesystem where
  "fs_restored = snd (restoreSession E0 ''abc'' fs_B_trashed)"





section \<open>Properties of the classifier\<close>

lemma isTier1_fst: "fst (isTier1 s r) \<longleftrightarrow>
   (category s = ''empty'' \<or> category s = ''hook-only'' \<or> category s = ''snapshot-only''
    \<or> (num_lt (fileSizeBytes s) 1024 \<and> num_eq (userMessageCount s) 0)
    \<or> (num_le (totalRecordCount s) 2 \<and> num_eq (userMessageCount s) 0))"
  by (simp add: isTier1_def)

lemma isTier1_no_match: "isTier1 s r = (False, r') \<Longrightarrow> r' = r"
  by (simp add: isTier1_def split: if_splits)

lemma isTier2_no_match: "isTier2 s r = (False, r') \<Longrightarrow> r' = r"
  by (simp add: isTier2_def split: if_splits)

text \<open>The four tests of \<open>classify\<close> as one chain: the first that holds decides.\<close>

lemma classify_cases:
  "classify s = applyTier s
      (if fst (isTier1 s []) then TIER_AUTO_DELETE else if isTier4 s then TIER_KEEP
       else if fst (isTier2 s []) then TIER_SUGGESTED else TIER_REVIEW)
      (if fst (isTier1 s []) then snd (isTier1 s []) else if isTier4 s then []
       else if fst (isTier2 s []) then snd (isTier2 s []) else computeReviewReasons s [])"
proof (cases "isTier1 s []")
  case (Pair b1 r1)
  show ?thesis
  proof (cases b1)
    case True
    with Pair show ?thesis by (simp add: classify_def)
  next
    case False
    with Pair have r1: "r1 = []" by (auto dest: isTier1_no_match)
    show ?thesis
    proof (cases "isTier2 s []")
      case (Pair b2 r2)
      then have "\<not> b2 \<Longrightarrow> r2 = []" by (auto dest: isTier2_no_match)
      with Pair \<open>isTier1 s [] = (b1, r1)\<close> False r1 show ?thesis
        by (cases b2) (simp_all add: classify_def)
    qed
  qed
qed

lemma applyTier_fields:
  "autoTier (applyTier s t r) = Some t"
  "tier (applyTier s t r) = Some (case tierOverride s of Some ov \<Rightarrow> ov | None \<Rightarrow> t)"
  "junkScore (applyTier s t r) = TIER_SCORES (case tierOverride s of Some ov \<Rightarrow> ov | None \<Rightarrow> t)"
  "tierLabel (applyTier s t r) = TIER_LABELS (case tierOverride s of Some ov \<Rightarrow> ov | None \<Rightarrow> t)"
  "junkReasons (applyTier s t r) = r"
  by (simp_all add: applyTier_def Let_def)


text \<open>
  C6. The tier tests run in the order 1, 4, 2, 3 and the first match decides the computed
  tier. A summary that meets any tier-1 condition gets computed tier 1 whatever its KEEP
  signals are, with at least one reason, and tier 1 is also its visible tier when no user
  override is set. The witness is the summary with category \<open>empty\<close> and turn count 100.
\<close>

theorem classify_tier_order:
  "autoTier (classify s) =
     Some (if fst (isTier1 s []) then 1 else if isTier4 s then 4
           else if fst (isTier2 s []) then 2 else 3)
   \<and> ((category s = ''empty'' \<or> category s = ''hook-only'' \<or> category s = ''snapshot-only''
        \<or> (num_lt (fileSizeBytes s) 1024 \<and> num_eq (userMessageCount s) 0)
        \<or> (num_le (totalRecordCount s) 2 \<and> num_eq (userMessageCount s) 0))
       \<longrightarrow> autoTier (classify s) = Some TIER_AUTO_DELETE
           \<and> (tierOverride s = None \<longrightarrow> tier (classify s) = Some TIER_AUTO_DELETE)
           \<and> junkReasons (classify s) \<noteq> [])"
proof -
  have ord: "autoTier (classify s) =
     Some (if fst (isTier1 s []) then 1 else if isTier4 s then 4
           else if fst (isTier2 s []) then 2 else 3)"
    by (simp add: classify_cases applyTier_fields TIER_AUTO_DELETE_def TIER_KEEP_def
        TIER_SUGGESTED_def TIER_REVIEW_def)
  have dom: "fst (isTier1 s []) \<Longrightarrow> autoTier (classify s) = Some TIER_AUTO_DELETE
           \<and> (tierOverride s = None \<longrightarrow> tier (classify s) = Some TIER_AUTO_DELETE)
           \<and> junkReasons (classify s) \<noteq> []"
    by (auto simp: classify_cases applyTier_fields isTier1_def split: if_splits)
  show ?thesis using ord dom isTier1_fst[of s "[]"] by blast
qed

theorem classify_tier_order_witness:
  "category ex_empty = ''empty'' \<and> turnCount ex_empty = Some 100 \<and> isTier4 ex_empty
   \<and> autoTier (classify ex_empty) = Some 1 \<and> tier (classify ex_empty) = Some 1
   \<and> junkReasons (classify ex_empty) = [''empty session (no records)'']"
  using classify_tier_order[of ex_empty]
  by (simp add: ex_empty_def blank_def isTier4_def or0_def TIER_AUTO_DELETE_def classify_def
      isTier1_def applyTier_def)

text \<open>
  C7. The legacy score written by a classification pass is the table entry of the final
  (visible) tier: 1.0, 0.7, 0.4, 0.1 for tiers 1 to 4. \<open>junkLabel\<close> answers \<open>junk\<close>
  exactly from 0.6 up, \<open>maybe\<close> exactly from 0.3 up to below 0.6, and \<open>real\<close> below
  0.3; so tiers 1 and 2 read \<open>junk\<close>, tier 3 \<open>maybe\<close> and tier 4 \<open>real\<close>, whatever
  the other fields are. An override of 2 on a summary whose computed tier is 4 gives
  tier 2 and keeps computed tier 4.
\<close>

theorem legacy_score_of_tier:
  "(\<exists>t. tier (classify s) = Some t \<and> junkScore (classify s) = TIER_SCORES t)
   \<and> TIER_SCORES 1 = Some 1.0 \<and> TIER_SCORES 2 = Some 0.7
   \<and> TIER_SCORES 3 = Some 0.4 \<and> TIER_SCORES 4 = Some 0.1
   \<and> ((junkLabel (Some x) = ''junk'') = (x \<ge> 0.6))
   \<and> ((junkLabel (Some x) = ''maybe'') = (0.3 \<le> x \<and> x < 0.6))
   \<and> ((junkLabel (Some x) = ''real'') = (x < 0.3))
   \<and> (tier (classify s) = Some 1 \<longrightarrow>
         junkScore (classify s) = Some 1.0 \<and> junkLabel (junkScore (classify s)) = ''junk'')
   \<and> (tier (classify s) = Some 2 \<longrightarrow>
         junkScore (classify s) = Some 0.7 \<and> junkLabel (junkScore (classify s)) = ''junk'')
   \<and> (tier (classify s) = Some 3 \<longrightarrow>
         junkScore (classify s) = Some 0.4 \<and> junkLabel (junkScore (classify s)) = ''maybe'')
   \<and> (tier (classify s) = Some 4 \<longrightarrow>
         junkScore (classify s) = Some 0.1 \<and> junkLabel (junkScore (classify s)) = ''real'')
   \<and> (tier (classify (s\<lparr>tierOverride := None\<rparr>)) = Some 4 \<longrightarrow>
         tier (classify (s\<lparr>tierOverride := Some 2\<rparr>)) = Some 2
         \<and> autoTier (classify (s\<lparr>tierOverride := Some 2\<rparr>)) = Some 4)"
proof -
  have sc: "\<exists>t. tier (classify s) = Some t \<and> junkScore (classify s) = TIER_SCORES t"
    by (simp add: classify_cases applyTier_fields)
  have tab: "TIER_SCORES 1 = Some 1.0 \<and> TIER_SCORES 2 = Some 0.7
      \<and> TIER_SCORES 3 = Some 0.4 \<and> TIER_SCORES 4 = Some 0.1"
    by (simp add: TIER_SCORES_def TIER_AUTO_DELETE_def TIER_SUGGESTED_def TIER_REVIEW_def
        TIER_KEEP_def)
  have lab: "((junkLabel (Some x) = ''junk'') = (x \<ge> 0.6))
      \<and> ((junkLabel (Some x) = ''maybe'') = (0.3 \<le> x \<and> x < 0.6))
      \<and> ((junkLabel (Some x) = ''real'') = (x < 0.3))"
    by (auto simp: junkLabel_def)
  have by_tier: "\<And>t. tier (classify s) = Some t \<Longrightarrow> junkScore (classify s) = TIER_SCORES t"
    using sc by auto
  have t1: "tier (classify s) = Some 1 \<longrightarrow>
         junkScore (classify s) = Some 1.0 \<and> junkLabel (junkScore (classify s)) = ''junk''"
    using by_tier[of 1] tab by (auto simp: junkLabel_def)
  have t2: "tier (classify s) = Some 2 \<longrightarrow>
         junkScore (classify s) = Some 0.7 \<and> junkLabel (junkScore (classify s)) = ''junk''"
    using by_tier[of 2] tab by (auto simp: junkLabel_def)
  have t3: "tier (classify s) = Some 3 \<longrightarrow>
         junkScore (classify s) = Some 0.4 \<and> junkLabel (junkScore (classify s)) = ''maybe''"
    using by_tier[of 3] tab by (auto simp: junkLabel_def)
  have t4: "tier (classify s) = Some 4 \<longrightarrow>
         junkScore (classify s) = Some 0.1 \<and> junkLabel (junkScore (classify s)) = ''real''"
    using by_tier[of 4] tab by (auto simp: junkLabel_def)
  have indep1: "isTier1 (s\<lparr>tierOverride := v\<rparr>) r = isTier1 s r" for v r
    by (simp add: isTier1_def)
  have indep4: "isTier4 (s\<lparr>tierOverride := v\<rparr>) = isTier4 s" for v
    by (simp add: isTier4_def)
  have indep2: "isTier2 (s\<lparr>tierOverride := v\<rparr>) r = isTier2 s r" for v r
    by (simp add: isTier2_def)
  have auto_indep: "autoTier (classify (s\<lparr>tierOverride := v\<rparr>)) = autoTier (classify s)" for v
    by (simp add: classify_cases applyTier_fields indep1 indep4 indep2)
  have no_ov: "tier (classify (s\<lparr>tierOverride := None\<rparr>))
      = autoTier (classify (s\<lparr>tierOverride := None\<rparr>))"
    by (simp add: classify_cases applyTier_fields)
  have ov: "tier (classify (s\<lparr>tierOverride := Some 2\<rparr>)) = Some 2"
    by (simp add: classify_cases applyTier_fields)
  have o: "tier (classify (s\<lparr>tierOverride := None\<rparr>)) = Some 4 \<longrightarrow>
         tier (classify (s\<lparr>tierOverride := Some 2\<rparr>)) = Some 2
         \<and> autoTier (classify (s\<lparr>tierOverride := Some 2\<rparr>)) = Some 4"
    using no_ov ov auto_indep[of None] auto_indep[of "Some 2"] by simp
  show ?thesis using sc tab lab t1 t2 t3 t4 o by blast
qed

theorem legacy_score_of_tier_witness:
  "tier (classify ex_keep) = Some 4 \<and> junkScore (classify ex_keep) = Some 0.1
   \<and> junkLabel (junkScore (classify ex_keep)) = ''real''
   \<and> tier (classify (ex_keep\<lparr>tierOverride := Some 2\<rparr>)) = Some 2
   \<and> autoTier (classify (ex_keep\<lparr>tierOverride := Some 2\<rparr>)) = Some 4
   \<and> junkLabel (junkScore (classify (ex_keep\<lparr>tierOverride := Some 2\<rparr>))) = ''junk''
   \<and> junkLabel (Some 0.4) = ''maybe''"
proof -
  have k: "tier (classify (ex_keep\<lparr>tierOverride := None\<rparr>)) = Some 4"
    by (simp add: ex_keep_def blank_def classify_def isTier1_def isTier4_def applyTier_def
        num_lt_def num_le_def num_eq_def or0_def TIER_KEEP_def)
  have e: "ex_keep\<lparr>tierOverride := None\<rparr> = ex_keep"
    by (simp add: ex_keep_def blank_def)
  show ?thesis
    using legacy_score_of_tier[of ex_keep "0.4"]
      legacy_score_of_tier[of "ex_keep\<lparr>tierOverride := Some 2\<rparr>" "0.4"] k e
    by (simp add: junkLabel_def)
qed










section \<open>Properties of the language guess and of the fast scan\<close>


lemma read_loop_gen:
  assumes "length tb \<le> t" "n < h \<Longrightarrow> tb = []"
  shows "read_loop h t fl (n, ls, tb) =
     (n + length fl, ls @ take (h - n) fl, lastn t (tb @ drop (h - n) fl))"
  using assms
proof (induction fl arbitrary: n ls tb)
  case Nil
  then show ?case by (simp add: lastn_def)
next
  case (Cons a fl)
  show ?case
  proof (cases "n + 1 \<le> h")
    case True
    then have "tb = []" using Cons.prems by simp
    have "h - n = Suc (h - (n + 1))" using True by simp
    then show ?thesis using True Cons.IH[of tb "n+1" "ls @ [a]"] Cons.prems \<open>tb = []\<close>
      by (simp add: Let_def)
  next
    case False
    then have hn: "h - n = 0" "h - (n+1) = 0" by simp_all
    let ?p = "tb @ [a]"
    let ?s = "if length ?p > t then tl ?p else ?p"
    have len: "length ?s \<le> t" using Cons.prems(1) by auto
    have "read_loop h t (a # fl) (n, ls, tb) = read_loop h t fl (n + 1, ls, ?s)"
      using False by (simp add: Let_def)
    also have "\<dots> = (n + 1 + length fl, ls @ take (h - (n+1)) fl, lastn t (?s @ drop (h - (n+1)) fl))"
      using Cons.IH[of ?s "n+1" ls] len False by simp
    also have "lastn t (?s @ drop (h - (n+1)) fl) = lastn t (tb @ drop (h - n) (a # fl))"
      using hn Cons.prems(1) by (auto simp: lastn_def drop_Cons' tl_append split: list.splits)
    finally show ?thesis using hn by simp
  qed
qed


lemma readHeadTail_eq:
  "readHeadTail fl h t = take h fl @ filter (\<lambda>l. l \<notin> set (take h fl)) (lastn t (drop h fl))"
  by (simp add: readHeadTail_def read_loop_gen)

lemma lastn_append: "lastn t (xs @ ys) = lastn (t - length ys) xs @ lastn t ys"
  by (cases "t \<le> length ys") (simp_all add: lastn_def)

lemma set_lastn: "set (lastn k xs) \<subseteq> set xs"
  by (simp add: lastn_def set_drop_subset)

lemma filter_lastn_head:
  "filter (\<lambda>l. l \<notin> set (take h fl)) (lastn t fl)
   = filter (\<lambda>l. l \<notin> set (take h fl)) (lastn t (drop h fl))"
proof -
  have "lastn t fl = lastn (t - length (drop h fl)) (take h fl) @ lastn t (drop h fl)"
    using lastn_append[of t "take h fl" "drop h fl"] by simp
  moreover have "filter (\<lambda>l. l \<notin> set (take h fl)) (lastn (t - length (drop h fl)) (take h fl)) = []"
    using set_lastn[of "t - length (drop h fl)" "take h fl"] by (auto simp: filter_empty_conv)
  ultimately show ?thesis by simp
qed

lemma length_map_filter: "length (List.map_filter f xs) = length (filter (\<lambda>x. f x \<noteq> None) xs)"
  by (simp add: List.map_filter_def)

lemma length_filter_map_filter:
  "length (filter Q (List.map_filter f xs))
   = length (filter (\<lambda>x. case f x of None \<Rightarrow> False | Some y \<Rightarrow> Q y) xs)"
  by (induction xs) (auto simp: List.map_filter_def split: option.splits)

lemma filter_drops:
  assumes "l \<in> set ys" "Q l" "\<not> P l"
  shows "length (filter Q (filter P ys)) < length (filter Q ys)"
proof -
  have "filter Q (filter P ys) = filter P (filter Q ys)" by (auto intro: filter_cong simp: conj_commute)
  moreover have "l \<in> set (filter Q ys)" using assms by simp
  ultimately show ?thesis using assms(3) length_filter_less[of l "filter Q ys" P] by simp
qed

text \<open>
  C10. In fast mode \<open>readHeadTail\<close> returns the first 30 lines followed by those of the
  last 10 lines that are not equal to a head line. So when a tail line \<open>l\<close> equals a head
  line, fewer lines come back than were read; and when \<open>l\<close> parses as a record,
  \<open>fastScan\<close> counts fewer records (and fewer user or assistant messages, by the type
  of the record) than the lines read hold.
\<close>

theorem head_tail_drops_duplicates:
  "readHeadTail fl 30 10 = take 30 fl @ filter (\<lambda>l. l \<notin> set (take 30 fl)) (lastn 10 fl)
   \<and> (l \<in> set (lastn 10 (drop 30 fl)) \<and> l \<in> set (take 30 fl) \<longrightarrow>
        length (readHeadTail fl 30 10) < length (take 30 fl) + length (lastn 10 (drop 30 fl))
        \<and> (parse l = Some r \<longrightarrow>
             sc_totalRecordCount (fastScan parse fl)
               < length (parse_lines parse (take 30 fl @ lastn 10 (drop 30 fl)))
             \<and> (rtype r = ''user'' \<longrightarrow>
                  sc_userMessageCount (fastScan parse fl)
                    < length (filter (\<lambda>r. rtype r = ''user'')
                        (parse_lines parse (take 30 fl @ lastn 10 (drop 30 fl)))))
             \<and> (rtype r = ''assistant'' \<longrightarrow>
                  sc_assistantMessageCount (fastScan parse fl)
                    < length (filter (\<lambda>r. rtype r = ''assistant'')
                        (parse_lines parse (take 30 fl @ lastn 10 (drop 30 fl)))))))"
proof -
  let ?hd = "take 30 fl" and ?tl = "lastn 10 (drop 30 fl)"
  let ?P = "\<lambda>l. l \<notin> set ?hd"
  have eq: "readHeadTail fl 30 10 = ?hd @ filter ?P ?tl" by (rule readHeadTail_eq)
  have eq': "readHeadTail fl 30 10 = ?hd @ filter ?P (lastn 10 fl)"
    using eq filter_lastn_head[of 30 fl 10] by simp
  have cnt: "length (filter Q (List.map_filter parse (filter ?P ?tl)))
             < length (filter Q (List.map_filter parse ?tl))"
    if "l \<in> set ?tl" "l \<in> set ?hd" "parse l = Some r" "Q r" for Q
  proof -
    let ?Q = "\<lambda>x. case parse x of None \<Rightarrow> False | Some y \<Rightarrow> Q y"
    have "length (filter ?Q (filter ?P ?tl)) < length (filter ?Q ?tl)"
      using that by (intro filter_drops[of l]) auto
    then show ?thesis by (simp only: length_filter_map_filter)
  qed
  have mfa: "List.map_filter parse (xs @ ys) = List.map_filter parse xs @ List.map_filter parse ys" for xs ys
    by (simp add: List.map_filter_def)
  have drop: "length (readHeadTail fl 30 10) < length ?hd + length ?tl"
    if "l \<in> set ?tl" "l \<in> set ?hd"
    using that eq length_filter_less[of l ?tl ?P] by simp
  have tot: "sc_totalRecordCount (fastScan parse fl) < length (parse_lines parse (?hd @ ?tl))"
    if "l \<in> set ?tl" "l \<in> set ?hd" "parse l = Some r"
    using cnt[of "\<lambda>_. True"] that by (simp add: fastScan_def parseRecords_def parse_lines_def eq mfa Let_def)
  have usr: "sc_userMessageCount (fastScan parse fl)
                    < length (filter (\<lambda>r. rtype r = ''user'') (parse_lines parse (?hd @ ?tl)))"
    if "l \<in> set ?tl" "l \<in> set ?hd" "parse l = Some r" "rtype r = ''user''"
    using cnt[of "\<lambda>r. rtype r = ''user''"] that
    by (simp add: fastScan_def parseRecords_def parse_lines_def eq mfa Let_def)
  have ast: "sc_assistantMessageCount (fastScan parse fl)
                    < length (filter (\<lambda>r. rtype r = ''assistant'') (parse_lines parse (?hd @ ?tl)))"
    if "l \<in> set ?tl" "l \<in> set ?hd" "parse l = Some r" "rtype r = ''assistant''"
    using cnt[of "\<lambda>r. rtype r = ''assistant''"] that
    by (simp add: fastScan_def parseRecords_def parse_lines_def eq mfa Let_def)
  show ?thesis using eq' drop tot usr ast by blast
qed

lemma ex_file_parts:
  "take 30 ex_file = user_line # replicate 29 assistant_line"
  "drop 30 ex_file = [user_line]"
  by (simp_all add: ex_file_def)

theorem head_tail_drops_duplicates_witness:
  "user_line \<in> set (lastn 10 (drop 30 ex_file)) \<and> user_line \<in> set (take 30 ex_file)
   \<and> ex_parse user_line = Some \<lparr> rtype = ''user'', data_type = [] \<rparr>
   \<and> length ex_file = 31
   \<and> length (readHeadTail ex_file 30 10) = 30
   \<and> sc_totalRecordCount (fastScan ex_parse ex_file) = 30
   \<and> sc_userMessageCount (fastScan ex_parse ex_file) = 1
   \<and> sc_totalRecordCount (fullScan ex_parse ex_file) = 31
   \<and> sc_userMessageCount (fullScan ex_parse ex_file) = 2"
proof -
  have ne: "user_line \<noteq> assistant_line" by (simp add: user_line_def assistant_line_def)
  have rht: "readHeadTail ex_file 30 10 = user_line # replicate 29 assistant_line"
    by (simp add: readHeadTail_eq ex_file_parts lastn_def)
  have pl: "parse_lines ex_parse (replicate n assistant_line) = replicate n \<lparr> rtype = ''assistant'', data_type = [] \<rparr>" for n
    using ne by (induction n) (simp_all add: parse_lines_def List.map_filter_def ex_parse_def)
  have pl1: "parse_lines ex_parse (user_line # xs) = \<lparr> rtype = ''user'', data_type = [] \<rparr> # parse_lines ex_parse xs" for xs
    by (simp add: parse_lines_def List.map_filter_def ex_parse_def)
  have pla: "parse_lines ex_parse (xs @ ys) = parse_lines ex_parse xs @ parse_lines ex_parse ys" for xs ys
    by (simp add: parse_lines_def List.map_filter_def)
  have tr: "trim user_line \<noteq> []" "trim assistant_line \<noteq> []"
    by (simp_all add: trim_def user_line_def assistant_line_def is_space_def)
  have flt: "filter (\<lambda>l. trim l \<noteq> []) ex_file = ex_file"
    using tr by (simp add: ex_file_def)
  have fast: "fastScan ex_parse ex_file = \<lparr> sc_totalRecordCount = 30, sc_userMessageCount = 1,
      sc_assistantMessageCount = 29, sc_category = ''conversation'' \<rparr>"
    by (simp add: fastScan_def rht pl pl1 parseRecords_def Let_def)
  have full: "fullScan ex_parse ex_file = \<lparr> sc_totalRecordCount = 31, sc_userMessageCount = 2,
      sc_assistantMessageCount = 29, sc_category = ''conversation'' \<rparr>"
  proof -
    have pn: "parse_lines ex_parse [] = []"
      by (simp add: parse_lines_def List.map_filter_def)
    have "fullScan ex_parse ex_file = parseRecords (parse_lines ex_parse ex_file)"
      by (simp add: fullScan_def flt)
    also have "parse_lines ex_parse ex_file
        = \<lparr> rtype = ''user'', data_type = [] \<rparr> # replicate 29 \<lparr> rtype = ''assistant'', data_type = [] \<rparr>
          @ [\<lparr> rtype = ''user'', data_type = [] \<rparr>]"
      by (simp add: ex_file_def pl pl1 pla pn)
    finally show ?thesis
      by (simp add: parseRecords_def Let_def)
  qed
  have mem: "user_line \<in> set (lastn 10 (drop 30 ex_file)) \<and> user_line \<in> set (take 30 ex_file)"
    by (simp add: ex_file_parts lastn_def)
  have p: "ex_parse user_line = Some \<lparr> rtype = ''user'', data_type = [] \<rparr>"
    by (simp add: ex_parse_def)
  show ?thesis
    using head_tail_drops_duplicates[of ex_file user_line ex_parse "\<lparr> rtype = ''user'', data_type = [] \<rparr>"]
      mem p fast full rht
    by (simp add: ex_file_def)
qed




section \<open>Properties of the scan cache\<close>

text \<open>
  C4, amended. A \<open>get\<close> right after a \<open>put\<close>, with the file's mtime and size unchanged,
  returns the stored summary. A plain \<open>get\<close> returns a summary exactly when the path has
  an entry, the file can be stat'ed, and its mtime and size both equal the recorded ones.
  After a change of mtime or size the \<open>get\<close> returns absent and leaves the entry in
  the cache; only a failing \<open>stat\<close> (the file vanished) removes the entry.
\<close>

theorem cache_validity:
  "(st p = Some info \<longrightarrow>
      getCached st (setCached st c p d) p False = (Some d, setCached st c p d))
   \<and> ((fst (getCached st c p False) = Some d)
        = (\<exists>e info. c p = Some e \<and> st p = Some info \<and> isValid e info \<and> data e = d))
   \<and> (st p = Some info \<and> st' p = Some info'
        \<and> (mtimeMs info' \<noteq> mtimeMs info \<or> size_i info' \<noteq> size_i info) \<longrightarrow>
        getCached st' (setCached st c p d) p ra = (None, setCached st c p d))
   \<and> (c p = Some e \<and> st p = Some info \<and> \<not> isValid e info \<longrightarrow>
        getCached st c p ra = (None, c))
   \<and> (c p = Some e \<and> st p = None \<and> (ra \<longrightarrow> analyzed (data e)) \<longrightarrow>
        getCached st c p ra = (None, c(p := None)))"
proof -
  have a: "st p = Some info \<longrightarrow>
      getCached st (setCached st c p d) p False = (Some d, setCached st c p d)"
    by (simp add: getCached_def setCached_def isValid_def)
  have b: "(fst (getCached st c p False) = Some d)
        = (\<exists>e info. c p = Some e \<and> st p = Some info \<and> isValid e info \<and> data e = d)"
    by (auto simp: getCached_def split: option.splits)
  have c: "st p = Some info \<and> st' p = Some info'
        \<and> (mtimeMs info' \<noteq> mtimeMs info \<or> size_i info' \<noteq> size_i info) \<longrightarrow>
        getCached st' (setCached st c p d) p ra = (None, setCached st c p d)"
    by (auto simp: getCached_def setCached_def isValid_def)
  have d: "c p = Some e \<and> st p = Some info \<and> \<not> isValid e info \<longrightarrow>
        getCached st c p ra = (None, c)"
    by (simp add: getCached_def)
  have e: "c p = Some e \<and> st p = None \<and> (ra \<longrightarrow> analyzed (data e)) \<longrightarrow>
        getCached st c p ra = (None, c(p := None))"
    by (auto simp: getCached_def)
  show ?thesis using a b c d e by blast
qed

theorem cache_validity_witness:
  "ex_disk ex_path = Some \<lparr> mtimeMs = 1000, size_i = 17 \<rparr>
   \<and> getCached ex_disk (setCached ex_disk Map.empty ex_path ex_keep) ex_path False
       = (Some ex_keep, setCached ex_disk Map.empty ex_path ex_keep)
   \<and> fst (getCached ex_disk_grown (setCached ex_disk Map.empty ex_path ex_keep) ex_path False) = None
   \<and> getCached Map.empty (setCached ex_disk Map.empty ex_path ex_keep) ex_path False
       = (None, Map.empty)"
proof -
  have s: "ex_disk ex_path = Some \<lparr> mtimeMs = 1000, size_i = 17 \<rparr>"
    by (simp add: ex_disk_def)
  have g: "ex_disk_grown ex_path = Some \<lparr> mtimeMs = 1000, size_i = 18 \<rparr>"
    by (simp add: ex_disk_grown_def)
  have put: "setCached ex_disk Map.empty ex_path ex_keep
      = [ex_path \<mapsto> \<lparr> mtime = 1000, size_e = 17, data = ex_keep \<rparr>]"
    by (simp add: setCached_def s)
  show ?thesis
    using cache_validity[of ex_disk ex_path "\<lparr> mtimeMs = 1000, size_i = 17 \<rparr>" Map.empty ex_keep
        ex_disk_grown "\<lparr> mtimeMs = 1000, size_i = 18 \<rparr>" False
        "\<lparr> mtime = 1000, size_e = 17, data = ex_keep \<rparr>"]
      cache_validity[of Map.empty ex_path "\<lparr> mtimeMs = 1000, size_i = 17 \<rparr>"
        "[ex_path \<mapsto> \<lparr> mtime = 1000, size_e = 17, data = ex_keep \<rparr>]" ex_keep
        Map.empty "\<lparr> mtimeMs = 1000, size_i = 18 \<rparr>" False
        "\<lparr> mtime = 1000, size_e = 17, data = ex_keep \<rparr>"]
      s g put
    by simp
qed

text \<open>
  C4, as stated, fails: after the cached file grew by one byte, \<open>get\<close> returns absent
  and the stale entry is still in the cache.
\<close>

theorem getCached_mismatch_counterexample:
  "fst (getCached ex_disk_grown (setCached ex_disk Map.empty ex_path ex_keep) ex_path False) = None
   \<and> snd (getCached ex_disk_grown (setCached ex_disk Map.empty ex_path ex_keep) ex_path False) ex_path
       = Some \<lparr> mtime = 1000, size_e = 17, data = ex_keep \<rparr>"
  by (simp add: getCached_def setCached_def isValid_def ex_disk_def ex_disk_grown_def)

section \<open>Properties of the file-system operations\<close>

lemma map_of_foldl_update:
  "map_of (foldl (\<lambda>m p. AList.update p v m) al ps) q = (if q \<in> set ps then Some v else map_of al q)"
  by (induction ps arbitrary: al) (auto simp: update_conv')

lemma set_tl_prefixes: "set (tl (prefixes k)) = {q. prefix q k \<and> q \<noteq> []}"
  by (cases k) (auto simp: prefix_Cons)

lemma mkdir_key_node:
  assumes "mkdir_key k fs = Inr fs1"
  shows "node_at fs1 q = (if prefix q k then Some Dir else node_at fs q)"
    and "readonly fs1 = readonly fs"
  using assms
  by (auto simp: mkdir_key_def node_at_def map_of_foldl_update set_tl_prefixes split: if_splits)

lemma mkdir_key_keeps:
  assumes "mkdir_key k fs = Inr fs1" "node_at fs q = Some n"
  shows "node_at fs1 q = Some n"
proof (cases "prefix q k")
  case True
  then have "\<not> is_file fs q" using assms(1)
    by (auto simp: mkdir_key_def list_ex_iff split: if_splits)
  with assms(2) have "n = Dir" by (cases n) (auto simp: is_file_def)
  with True show ?thesis using mkdir_key_node(1)[OF assms(1)] by simp
next
  case False
  then show ?thesis using mkdir_key_node(1)[OF assms(1)] assms(2) by simp
qed

lemma mkdir_key_file_iff:
  assumes "mkdir_key k fs = Inr fs1"
  shows "node_at fs1 q = Some (File c) \<longleftrightarrow> node_at fs q = Some (File c)"
  using mkdir_key_keeps[OF assms] mkdir_key_node(1)[OF assms, of q]
  by (auto split: if_splits)

lemma move_tree_Cons:
  "move_tree s d ((k, n) # al) =
      (if prefix d k then move_tree s d al
       else if prefix s k then (d @ drop (length s) k, n) # move_tree s d al
       else (k, n) # move_tree s d al)"
  by (simp add: move_tree_def)

lemma map_of_move_tree:
  assumes "\<not> prefix s d" "\<not> prefix d s"
  shows "map_of (move_tree s d al) q =
     (if prefix d q then map_of al (s @ drop (length d) q)
      else if prefix s q then None else map_of al q)"
proof (induction al)
  case Nil
  then show ?case by (simp add: move_tree_def)
next
  case (Cons a al)
  obtain k n where a: "a = (k, n)" by (cases a)
  show ?case unfolding a
  proof (cases "prefix d k")
    case True
    have 1: "s @ x \<noteq> k" for x
    proof
      assume "s @ x = k"
      then have "prefix s k" by auto
      with True have "prefix s d \<or> prefix d s" using prefix_same_cases by blast
      with assms show False by simp
    qed
    have 2: "q \<noteq> k" if "\<not> prefix d q" using True that by auto
    show "map_of (move_tree s d ((k, n) # al)) q =
     (if prefix d q then map_of ((k, n) # al) (s @ drop (length d) q)
      else if prefix s q then None else map_of ((k, n) # al) q)"
      using True Cons.IH 1 2 by (auto simp add: move_tree_Cons)
  next
    case nd: False
    show "map_of (move_tree s d ((k, n) # al)) q =
     (if prefix d q then map_of ((k, n) # al) (s @ drop (length d) q)
      else if prefix s q then None else map_of ((k, n) # al) q)"
    proof (cases "prefix s k")
      case True
      then obtain r where k: "k = s @ r" by (auto simp: prefix_def)
      show ?thesis
      proof (cases "prefix d q")
        case dq: True
        then obtain r' where q: "q = d @ r'" by (auto simp: prefix_def)
        show ?thesis using nd True Cons.IH by (simp add: move_tree_Cons k q)
      next
        case False
        then have "d @ r \<noteq> q" by auto
        moreover have "s @ r \<noteq> q" if "\<not> prefix s q" using that by auto
        ultimately show ?thesis using nd True False Cons.IH by (auto simp add: move_tree_Cons k)
      qed
    next
      case False
      have 3: "s @ x \<noteq> k" for x using False by auto
      have 4: "q \<noteq> k" if "prefix s q" using False that by auto
      show ?thesis using nd False Cons.IH 3 4 by (auto simp add: move_tree_Cons)
    qed
  qed
qed

lemma node_at_update:
  "k \<noteq> [] \<Longrightarrow> node_at (fs\<lparr>nodes := AList.update k v (nodes fs)\<rparr>) q = (if q = k then Some v else node_at fs q)"
  by (simp add: node_at_def update_conv')

lemma node_at_delete:
  "k \<noteq> [] \<Longrightarrow> node_at (fs\<lparr>nodes := AList.delete k (nodes fs)\<rparr>) q = (if q = k then None else node_at fs q)"
  by (simp add: node_at_def delete_conv')

lemma has_children_iff:
  "has_children fs d \<longleftrightarrow> (\<exists>q. strict_prefix d q \<and> q \<in> fst ` set (nodes fs))"
  by (auto simp: has_children_def list_ex_iff) force

lemma rename_key_ok_cases:
  assumes "rename_key s d fs = Inr fs2"
  obtains (same_path) "s = d" "fs2 = fs" "s \<noteq> []" "map_of (nodes fs) s \<noteq> None"
  | (moved_file) c where "s \<noteq> d" "s \<noteq> []" "d \<noteq> []" "map_of (nodes fs) s = Some (File c)"
      "is_dir fs (butlast d)" "\<not> is_dir fs d"
      "fs2 = fs\<lparr> nodes := AList.update d (File c) (AList.delete s (nodes fs)) \<rparr>"
  | (moved_dir) "s \<noteq> d" "s \<noteq> []" "d \<noteq> []" "map_of (nodes fs) s = Some Dir"
      "is_dir fs (butlast d)" "\<not> prefix s d" "\<not> prefix d s" "\<not> is_file fs d"
      "fs2 = fs\<lparr> nodes := move_tree s d (nodes fs) \<rparr>"
proof -
  from assms have s: "s \<noteq> []" by (auto simp: rename_key_def split: if_splits)
  from assms obtain n where n: "map_of (nodes fs) s = Some n"
    using s by (auto simp: rename_key_def split: if_splits option.splits)
  show thesis
  proof (cases "s = d")
    case True
    with assms s n have "fs2 = fs" by (simp add: rename_key_def)
    with True s n show ?thesis using same_path by simp
  next
    case False
    with assms s n have d: "d \<noteq> []" "is_dir fs (butlast d)"
      by (auto simp: rename_key_def split: if_splits)
    show ?thesis
    proof (cases n)
      case (File c)
      with assms s n False d have "\<not> is_dir fs d"
        "fs2 = fs\<lparr> nodes := AList.update d (File c) (AList.delete s (nodes fs)) \<rparr>"
        by (auto simp: rename_key_def split: if_splits)
      with False s d n File show ?thesis using moved_file by simp
    next
      case Dir
      with assms s n False d have *: "\<not> prefix s d" "\<not> is_file fs d" "\<not> has_children fs d"
        "fs2 = fs\<lparr> nodes := move_tree s d (nodes fs) \<rparr>"
        by (auto simp: rename_key_def split: if_splits)
      have "s \<in> fst ` set (nodes fs)" using n by (meson domI domIff map_of_eq_None_iff)
      with *(3) have "\<not> strict_prefix d s" by (auto simp: has_children_iff)
      with False have "\<not> prefix d s" by (auto simp: strict_prefix_def)
      with * False s d n Dir show ?thesis using moved_dir by simp
    qed
  qed
qed

lemma rename_key_readonly: "rename_key s d fs = Inr fs2 \<Longrightarrow> readonly fs2 = readonly fs"
  by (erule rename_key_ok_cases) auto

lemma rename_key_frame:
  assumes "rename_key s d fs = Inr fs2" "\<not> prefix s q" "\<not> prefix d q"
  shows "node_at fs2 q = node_at fs q"
  using assms(1)
proof (cases rule: rename_key_ok_cases)
  case same_path
  then show ?thesis by simp
next
  case (moved_file c)
  have "q \<noteq> s" "q \<noteq> d" using assms(2,3) by auto
  then show ?thesis using moved_file by (simp add: node_at_def update_conv' delete_conv')
next
  case moved_dir
  then show ?thesis using assms(2,3) by (simp add: node_at_def map_of_move_tree)
qed

lemma rename_key_moved:
  assumes "rename_key s d fs = Inr fs2" "s \<noteq> d"
  shows "node_at fs2 s = None \<and> node_at fs2 d = node_at fs s \<and> node_at fs s \<noteq> None"
  using assms(1)
proof (cases rule: rename_key_ok_cases)
  case same_path
  then show ?thesis using assms(2) by simp
next
  case (moved_file c)
  then show ?thesis by (simp add: node_at_def update_conv' delete_conv')
next
  case moved_dir
  then show ?thesis by (simp add: node_at_def map_of_move_tree)
qed

section \<open>Properties of the path functions\<close>

lemma split_on_not_Nil: "split_on c s \<noteq> []"
  by (induction s) (auto split: list.splits)

lemma split_on_no_sep: "x \<in> set (split_on c s) \<Longrightarrow> c \<notin> set x"
  by (induction s arbitrary: x) (auto split: list.splits if_splits)

lemma comps_segment: "list_all segment (comps p)"
  by (auto simp: comps_def segment_def list_all_iff dest: split_on_no_sep)

lemma split_on_append_clean:
  "c \<notin> set k \<Longrightarrow> split_on c (k @ s) = (k @ hd (split_on c s)) # tl (split_on c s)"
  using split_on_not_Nil[of c s]
  by (induction k) (auto split: list.splits)

lemma split_on_clean: "c \<notin> set k \<Longrightarrow> split_on c k = [k]"
  by (induction k) auto

lemma split_on_path:
  "list_all segment ks \<Longrightarrow>
   split_on CHR ''/'' (concat (map (\<lambda>c. CHR ''/'' # c) ks)) = (if ks = [] then [[]] else [] # ks)"
proof (induction ks)
  case Nil
  then show ?case by simp
next
  case (Cons k ks)
  then have ks: "list_all segment ks" by simp
  from Cons.prems have k: "CHR ''/'' \<notin> set k" by (simp add: segment_def)
  show ?case using Cons.IH[OF ks] k
    by (cases "ks = []") (simp_all add: split_on_append_clean split_on_clean)
qed

lemma comps_path_str: "list_all segment ks \<Longrightarrow> comps (path_str ks) = ks"
  by (cases "ks = []") (auto simp: comps_def path_str_def split_on_path segment_def list_all_iff filter_id_conv)

lemma comps_rel_str: "list_all segment ks \<Longrightarrow> comps (rel_str ks) = ks"
proof (cases ks)
  case Nil
  then show ?thesis by (simp add: rel_str_def comps_def)
next
  case (Cons k ks')
  assume s: "list_all segment ks"
  then have ks': "list_all segment ks'" using Cons by simp
  from s Cons have k: "CHR ''/'' \<notin> set k" "k \<noteq> []" by (simp_all add: segment_def)
  have "rel_str ks = k @ concat (map (\<lambda>c. CHR ''/'' # c) ks')" using Cons by (simp add: rel_str_def)
  then have "split_on CHR ''/'' (rel_str ks) = k # ks'"
    using k split_on_path[OF ks'] by (cases "ks' = []") (simp_all add: split_on_append_clean split_on_clean)
  then show ?thesis using s Cons by (auto simp: comps_def segment_def list_all_iff filter_id_conv)
qed

lemma isAbsolute_path_str: "isAbsolute (path_str ks)"
  by (cases ks) (simp_all add: isAbsolute_def path_str_def)

lemma not_isAbsolute_rel_str: "list_all segment ks \<Longrightarrow> \<not> isAbsolute (rel_str ks)"
  by (cases ks; cases "hd ks") (auto simp: isAbsolute_def rel_str_def segment_def)

lemma norm_acc_entry_names:
  "list_all entry_name acc \<Longrightarrow> list_all segment cs \<Longrightarrow> list_all entry_name (norm_acc acc cs)"
proof (induction cs arbitrary: acc)
  case Nil
  then show ?case by simp
next
  case (Cons c cs)
  have t: "list_all entry_name (tl acc)" using Cons.prems(1) by (cases acc) simp_all
  from Cons.prems(2) have cs: "list_all segment cs" and c: "segment c" by simp_all
  show ?case
  proof (cases "c = ''.''")
    case True
    then show ?thesis using Cons.IH[OF Cons.prems(1) cs] by simp
  next
    case nd: False
    show ?thesis
    proof (cases "c = ''..''")
      case True
      then show ?thesis using Cons.IH[OF t cs] by simp
    next
      case False
      with nd c have "entry_name c" by (simp add: entry_name_def)
      then have "list_all entry_name (c # acc)" using Cons.prems(1) by simp
      from Cons.IH[OF this cs] nd False show ?thesis by simp
    qed
  qed
qed

lemma norm_acc_id: "list_all entry_name ks \<Longrightarrow> norm_acc acc ks = rev acc @ ks"
  by (induction ks arbitrary: acc) (auto simp: entry_name_def)

lemma norm_acc_append: "norm_acc acc (xs @ ys) = norm_acc (rev (norm_acc acc xs)) ys"
  by (induction xs arbitrary: acc) auto

lemma norm_acc_dotdots: "norm_acc acc (replicate k ''..'' @ ys) = norm_acc (drop k acc) ys"
  by (induction k arbitrary: acc) (auto simp: drop_Suc)

lemma entry_name_segment: "list_all entry_name ks \<Longrightarrow> list_all segment ks"
  by (simp add: entry_name_def list_all_iff)

lemma resolve_key_entry_names: "list_all entry_name (resolve_key wd p)"
  by (simp add: resolve_key_def norm_acc_entry_names comps_segment)

lemma resolve_key_path_str: "list_all entry_name ks \<Longrightarrow> resolve_key wd (path_str ks) = ks"
  by (simp add: resolve_key_def isAbsolute_path_str comps_path_str entry_name_segment norm_acc_id)

lemma join_path_eq: "join_path a b = path_str (norm_acc (rev (norm_acc [] (comps a))) (comps b))"
  by (simp add: join_path_def norm_acc_append)

lemma comps_single: "segment c \<Longrightarrow> comps c = [c]"
  using comps_rel_str[of "[c]"] by (simp add: rel_str_def)

lemma join_path_entry:
  "entry_name c \<Longrightarrow> join_path a c = path_str (norm_acc [] (comps a) @ [c])"
  by (simp add: join_path_eq comps_single entry_name_def)

lemma resolve_key_join:
  "resolve_key wd (join_path a b) = norm_acc (rev (norm_acc [] (comps a))) (comps b)"
proof -
  have "list_all entry_name (norm_acc (rev (norm_acc [] (comps a))) (comps b))"
    by (intro norm_acc_entry_names) (simp_all add: norm_acc_entry_names comps_segment)
  then show ?thesis by (simp add: join_path_eq resolve_key_path_str)
qed

lemma comps_join:
  "comps (join_path a b) = norm_acc (rev (norm_acc [] (comps a))) (comps b)"
proof -
  have "list_all entry_name (norm_acc (rev (norm_acc [] (comps a))) (comps b))"
    by (intro norm_acc_entry_names) (simp_all add: norm_acc_entry_names comps_segment)
  then show ?thesis by (simp add: join_path_eq comps_path_str entry_name_segment)
qed

text \<open>The directories of the tool, as component sequences below the home directory.\<close>

lemma home_key_names: "list_all entry_name (home_key E)"
  by (simp add: home_key_def norm_acc_entry_names comps_segment)

lemma entry_literals:
  "entry_name ''.claude''" "entry_name ''projects''" "entry_name ''tools''" "entry_name ''csesh''"
  "entry_name ''trash''" "entry_name ''trash-manifest.json''"
  by (simp_all add: entry_name_def segment_def)

lemma comps_join_entry:
  "entry_name c \<Longrightarrow> comps (join_path a c) = norm_acc [] (comps a) @ [c]"
  by (simp add: comps_join comps_single entry_name_def)

lemma norm_acc_names_id: "list_all entry_name ks \<Longrightarrow> norm_acc [] ks = ks"
  by (simp add: norm_acc_id)

lemma dir_comps:
  "comps (CLAUDE_DIR E) = home_key E @ [''.claude'']"
  "comps (PROJECTS_DIR E) = home_key E @ [''.claude'', ''projects'']"
  "comps (TOOL_DIR E) = home_key E @ [''.claude'', ''tools'', ''csesh'']"
  "comps (TRASH_DIR E) = home_key E @ [''.claude'', ''tools'', ''csesh'', ''trash'']"
  "comps (TRASH_MANIFEST E) = home_key E @ [''.claude'', ''tools'', ''csesh'', ''trash-manifest.json'']"
proof -
  have n: "list_all entry_name (home_key E @ xs)" if "list_all entry_name xs" for xs
    using that home_key_names by simp
  show c: "comps (CLAUDE_DIR E) = home_key E @ [''.claude'']"
    by (simp add: CLAUDE_DIR_def comps_join_entry entry_literals home_key_def)
  show p: "comps (PROJECTS_DIR E) = home_key E @ [''.claude'', ''projects'']"
    using n[of "[''.claude'']"]
    by (simp add: PROJECTS_DIR_def comps_join_entry entry_literals c norm_acc_names_id)
  have t0: "comps (join_path (CLAUDE_DIR E) ''tools'') = home_key E @ [''.claude'', ''tools'']"
    using n[of "[''.claude'']"]
    by (simp add: comps_join_entry entry_literals c norm_acc_names_id)
  show t: "comps (TOOL_DIR E) = home_key E @ [''.claude'', ''tools'', ''csesh'']"
    using n[of "[''.claude'', ''tools'']"]
    by (simp add: TOOL_DIR_def comps_join_entry entry_literals t0 norm_acc_names_id)
  show "comps (TRASH_DIR E) = home_key E @ [''.claude'', ''tools'', ''csesh'', ''trash'']"
    using n[of "[''.claude'', ''tools'', ''csesh'']"]
    by (simp add: TRASH_DIR_def comps_join_entry entry_literals t norm_acc_names_id)
  show "comps (TRASH_MANIFEST E) = home_key E @ [''.claude'', ''tools'', ''csesh'', ''trash-manifest.json'']"
    using n[of "[''.claude'', ''tools'', ''csesh'']"]
    by (simp add: TRASH_MANIFEST_def comps_join_entry entry_literals t norm_acc_names_id)
qed

lemma isAbsolute_join: "isAbsolute (join_path a b)"
  by (simp add: join_path_def isAbsolute_path_str)

lemma resolve_key_abs_comps:
  "isAbsolute p \<Longrightarrow> resolve_key wd p = norm_acc [] (comps p)"
  by (simp add: resolve_key_def)

lemma dir_keys:
  "trash_dir_key E = home_key E @ [''.claude'', ''tools'', ''csesh'', ''trash'']"
  "manifest_key E = home_key E @ [''.claude'', ''tools'', ''csesh'', ''trash-manifest.json'']"
  "resolve_key wd (PROJECTS_DIR E) = home_key E @ [''.claude'', ''projects'']"
  using home_key_names[of E]
  by (simp_all add: trash_dir_key_def manifest_key_def resolve_key_abs_comps isAbsolute_join
      TRASH_DIR_def TRASH_MANIFEST_def PROJECTS_DIR_def dir_comps[unfolded TRASH_DIR_def TRASH_MANIFEST_def PROJECTS_DIR_def]
      norm_acc_names_id entry_literals)

text \<open>
  The stored relative path, resolved against the projects directory, is the resolved
  path of the session file again.
\<close>

lemma prefix_take: "prefix p xs \<Longrightarrow> take (length p) xs = p"
  by (auto simp: prefix_def)

lemma prefix_drop: "prefix p xs \<Longrightarrow> p @ drop (length p) xs = xs"
  by (auto simp: prefix_def)

lemma take_lcp: "take (length (longest_common_prefix f t)) f = longest_common_prefix f t"
  by (rule prefix_take[OF longest_common_prefix_prefix1])

lemma lcp_drop: "longest_common_prefix f t @ drop (length (longest_common_prefix f t)) t = t"
  by (rule prefix_drop[OF longest_common_prefix_prefix2])

lemma list_all_drop: "list_all P xs \<Longrightarrow> list_all P (drop n xs)"
  by (auto simp: list_all_iff dest: in_set_dropD)

lemma segment_dotdot: "segment ''..''"
  by (simp add: segment_def)

lemma relative_resolve:
  assumes f: "list_all entry_name f" and t: "list_all entry_name t"
  shows "norm_acc [] (f @ comps (rel_str (replicate (length f - length (longest_common_prefix f t)) ''..''
            @ drop (length (longest_common_prefix f t)) t))) = t"
proof -
  let ?n = "length (longest_common_prefix f t)"
  let ?k = "length f - ?n"
  have seg: "list_all segment (replicate ?k ''..'' @ drop ?n t)"
    using t by (auto simp: list_all_iff segment_dotdot entry_name_def dest: in_set_dropD)
  have "norm_acc [] (f @ comps (rel_str (replicate ?k ''..'' @ drop ?n t)))
      = norm_acc [] (f @ replicate ?k ''..'' @ drop ?n t)"
    by (simp add: comps_rel_str[OF seg])
  also have "\<dots> = norm_acc (rev f) (replicate ?k ''..'' @ drop ?n t)"
    using norm_acc_append[of "[]" f] norm_acc_id[OF f, of "[]"] by simp
  also have "\<dots> = norm_acc (drop ?k (rev f)) (drop ?n t)"
    by (rule norm_acc_dotdots)
  also have "\<dots> = rev (drop ?k (rev f)) @ drop ?n t"
    using t by (intro norm_acc_id list_all_drop)
  also have "rev (drop ?k (rev f)) = take ?n f"
  proof -
    have "?n \<le> length f" using longest_common_prefix_prefix1[of f t] by (simp add: prefix_length_le)
    then show ?thesis by (simp add: rev_drop)
  qed
  finally show ?thesis by (simp add: take_lcp lcp_drop)
qed

lemma restored_path_eq: "restored_path E s = path_str (session_key E s)"
proof -
  let ?f = "resolve_key (cwd E) (PROJECTS_DIR E)" and ?t = "session_key E s"
  let ?rel = "relative_path (cwd E) (PROJECTS_DIR E) (filePath s)"
  have fn: "list_all entry_name ?f" and tn: "list_all entry_name ?t"
    by (simp_all add: session_key_def resolve_key_entry_names)
  have seg: "list_all segment (replicate (length ?f - length (longest_common_prefix ?f ?t)) ''..''
      @ drop (length (longest_common_prefix ?f ?t)) ?t)"
    using tn by (auto simp: list_all_iff segment_dotdot entry_name_def dest: in_set_dropD)
  have rel: "?rel = rel_str (replicate (length ?f - length (longest_common_prefix ?f ?t)) ''..''
      @ drop (length (longest_common_prefix ?f ?t)) ?t)"
    by (simp add: relative_path_def Let_def session_key_def)
  have na: "\<not> isAbsolute ?rel" unfolding rel by (rule not_isAbsolute_rel_str[OF seg])
  have cp: "comps (PROJECTS_DIR E) = ?f"
    using dir_keys(3)[of "cwd E" E] dir_comps(2)[of E] by simp
  have "resolve_key (PROJECTS_DIR E) ?rel = norm_acc [] (?f @ comps ?rel)"
    using na by (simp add: resolve_key_def cp)
  also have "\<dots> = ?t" unfolding rel by (rule relative_resolve[OF fn tn])
  finally show ?thesis using na
    by (simp add: restored_path_def resolveOriginalPath_def resolve_path_def)
qed

lemma restored_key: "resolve_key (cwd E) (restored_path E s) = session_key E s"
  by (simp add: restored_path_eq resolve_key_path_str session_key_def resolve_key_entry_names)

section \<open>Properties of trash, restore and purge\<close>

lemma move_companion_frame:
  assumes "\<not> prefix (resolve_key (cwd E) src) q" "\<not> prefix (resolve_key (cwd E) dst) q"
  shows "node_at (move_companion E src dst fs) q = node_at fs q"
  using assms rename_key_frame[of "resolve_key (cwd E) src" "resolve_key (cwd E) dst" fs _ q]
  by (auto simp: move_companion_def rename_def split: option.splits node.splits sum.splits)


lemma file_at_mkdir:
  assumes "mkdir_key k fs = Inr fs1"
  shows "file_at fs1 q = file_at fs q"
proof (cases "node_at fs q")
  case None
  then show ?thesis using mkdir_key_node(1)[OF assms, of q] by (simp add: file_at_def)
next
  case (Some n)
  then show ?thesis using mkdir_key_keeps[OF assms, of q n] by (simp add: file_at_def)
qed

lemma loadManifest_file_at:
  "loadManifest E fs = (case file_at fs (manifest_key E) of Some (Journal items) \<Rightarrow> items | _ \<Rightarrow> [])"
  by (auto simp: loadManifest_def readFile_def readFile_key_def file_at_def manifest_key_def
      split: option.splits node.splits content.splits)

lemma loadManifest_cong:
  "file_at fs' (manifest_key E) = file_at fs (manifest_key E) \<Longrightarrow> loadManifest E fs' = loadManifest E fs"
  by (simp add: loadManifest_file_at)

lemma file_at_node: "node_at fs' q = node_at fs q \<Longrightarrow> file_at fs' q = file_at fs q"
  by (simp add: file_at_def)



lemma findIndex_Some:
  "findIndex P xs = Some i \<Longrightarrow> i < length xs \<and> P (xs ! i) \<and> (\<forall>j < i. \<not> P (xs ! j))"
proof (induction xs arbitrary: i)
  case Nil
  then show ?case by simp
next
  case (Cons x xs)
  show ?case
  proof (cases "P x")
    case True
    with Cons.prems show ?thesis by simp
  next
    case False
    with Cons.prems obtain i' where i': "findIndex P xs = Some i'" "i = Suc i'" by auto
    from Cons.IH[OF i'(1)] False i'(2) show ?thesis by (auto simp: less_Suc_eq_0_disj)
  qed
qed





lemma writeFile_key_written:
  "writeFile_key k c fs = Inr fs' \<Longrightarrow> node_at fs' k = Some (File c)"
  by (auto simp: writeFile_key_def is_dir_def node_at_def update_conv' split: if_splits)

lemma saveManifest_saved:
  assumes "saveManifest E items fs = (Inr u, fs')"
  shows "loadManifest E fs' = items"
proof -
  from assms obtain fs1 where
    "writeFile_key (manifest_key E) (Journal items) fs1 = Inr fs'"
    by (auto simp: saveManifest_def writeFile_def manifest_key_def split: sum.splits)
  from writeFile_key_written[OF this] show ?thesis
    by (simp add: loadManifest_file_at file_at_def)
qed











section \<open>A successful trash\<close>

lemma writeFile_key_frame:
  "writeFile_key k c fs = Inr fs' \<Longrightarrow> q \<noteq> k \<Longrightarrow> node_at fs' q = node_at fs q"
  by (auto simp: writeFile_key_def node_at_def update_conv' split: if_splits)

lemma saveManifest_success_frame:
  assumes "saveManifest E items fs = (Inr u, fs')" "node_at fs q = Some n" "q \<noteq> manifest_key E"
  shows "node_at fs' q = Some n"
proof -
  from assms(1) obtain fs1 where 1: "mkdir_key (trash_dir_key E) fs = Inr fs1"
    and 2: "writeFile_key (manifest_key E) (Journal items) fs1 = Inr fs'"
    by (auto simp: saveManifest_def mkdir_def writeFile_def trash_dir_key_def manifest_key_def
        split: sum.splits)
  from mkdir_key_keeps[OF 1 assms(2)] writeFile_key_frame[OF 2 assms(3)] show ?thesis by simp
qed

lemma saveManifest_success_none:
  assumes "saveManifest E items fs = (Inr u, fs')" "node_at fs q = None"
    "q \<noteq> manifest_key E" "\<not> prefix q (trash_dir_key E)"
  shows "node_at fs' q = None"
proof -
  from assms(1) obtain fs1 where 1: "mkdir_key (trash_dir_key E) fs = Inr fs1"
    and 2: "writeFile_key (manifest_key E) (Journal items) fs1 = Inr fs'"
    by (auto simp: saveManifest_def mkdir_def writeFile_def trash_dir_key_def manifest_key_def
        split: sum.splits)
  from mkdir_key_node(1)[OF 1, of q] assms(2,4) writeFile_key_frame[OF 2 assms(3)]
  show ?thesis by simp
qed

text \<open>What a successful \<open>trashSession\<close> leaves behind.\<close>

lemma trashSession_success_state:
  assumes ok: "trashSession E now s r fs = (Inr res, fs')" and sep: "separate_paths E s"
  shows "node_at fs (session_key E s) \<noteq> None"
    and "node_at fs' (session_key E s) = None"
    and "node_at fs' (trash_key E s) = node_at fs (session_key E s)"
    and "loadManifest E fs' = loadManifest E fs
          @ [new_item E now s r (join_path (TRASH_DIR E) (basename (filePath s)))]"
    and "res = (id_s s, join_path (TRASH_DIR E) (basename (filePath s)))"
proof -
  let ?sk = "session_key E s" and ?dk = "trash_key E s" and ?mk = "manifest_key E"
  let ?ck = "companion_key E s" and ?cdk = "companion_trash_key E s"
  let ?tp = "join_path (TRASH_DIR E) (basename (filePath s))"
  from ok obtain fs1 where mk1: "mkdir_key (trash_dir_key E) fs = Inr fs1"
    by (cases "mkdir_key (trash_dir_key E) fs")
       (simp_all add: trashSession_def mkdir_def trash_dir_key_def)
  from ok mk1 obtain fs2 where rn: "rename_key ?sk ?dk fs1 = Inr fs2"
    by (cases "rename_key ?sk ?dk fs1")
       (simp_all add: trashSession_def mkdir_def trash_dir_key_def rename_def session_key_def
          trash_key_def Let_def)
  define fs3 where "fs3 = move_companion E (replace_first ''.jsonl'' [] (filePath s))
        (join_path (TRASH_DIR E) (basename (replace_first ''.jsonl'' [] (filePath s)))) fs2"
  let ?items = "loadManifest E fs3 @ [new_item E now s r ?tp]"
  obtain rr ff where sv0: "saveManifest E ?items fs3 = (rr, ff)" by (cases "saveManifest E ?items fs3")
  from ok mk1 rn sv0 obtain u where "rr = Inr u" "ff = fs'" and res: "res = (id_s s, ?tp)"
    by (cases rr)
       (simp_all add: trashSession_def mkdir_def trash_dir_key_def rename_def session_key_def
          trash_key_def Let_def fs3_def)
  with sv0 have sv: "saveManifest E ?items fs3 = (Inr u, fs')" by simp
  from sep have sp: "?sk \<noteq> ?dk" "\<not> prefix ?sk (trash_dir_key E)"
      "\<not> prefix ?sk ?mk" "\<not> prefix ?dk ?mk"
      "\<not> prefix ?ck ?sk" "\<not> prefix ?cdk ?sk" "\<not> prefix ?ck ?dk" "\<not> prefix ?cdk ?dk"
      "\<not> prefix ?ck ?mk" "\<not> prefix ?cdk ?mk"
      by (simp_all add: separate_paths_def)
  have fr3: "node_at fs3 q = node_at fs2 q" if "\<not> prefix ?ck q" "\<not> prefix ?cdk q" for q
    unfolding fs3_def using that
    by (intro move_companion_frame) (simp_all add: companion_key_def companion_trash_key_def)
  have s1: "node_at fs1 ?sk = node_at fs ?sk"
    using mkdir_key_node(1)[OF mk1, of ?sk] sp(2) by simp
  have mv: "node_at fs2 ?sk = None" "node_at fs2 ?dk = node_at fs1 ?sk" "node_at fs1 ?sk \<noteq> None"
    using rename_key_moved[OF rn sp(1)] by simp_all
  have m2: "node_at fs2 ?mk = node_at fs1 ?mk"
    using rename_key_frame[OF rn sp(3) sp(4)] .
  have at3: "node_at fs3 ?sk = None" "node_at fs3 ?dk = node_at fs ?sk"
      "node_at fs3 ?mk = node_at fs1 ?mk"
    using fr3 sp mv s1 m2 by simp_all
  have f3m: "file_at fs3 ?mk = file_at fs ?mk"
    using at3(3) file_at_mkdir[OF mk1, of ?mk] by (simp add: file_at_def)
  show "node_at fs (session_key E s) \<noteq> None" using mv(3) s1 by simp
  have "?sk \<noteq> ?mk" "?dk \<noteq> ?mk" using sp(3,4) by auto
  then show "node_at fs' ?sk = None" "node_at fs' ?dk = node_at fs ?sk"
    using saveManifest_success_none[OF sv at3(1) _ sp(2)]
      saveManifest_success_frame[OF sv, of ?dk] at3(2) mv(3) s1
    by auto
  show "loadManifest E fs' = loadManifest E fs @ [new_item E now s r ?tp]"
    using saveManifest_saved[OF sv] f3m by (simp add: loadManifest_file_at)
  show "res = (id_s s, ?tp)" by (rule res)
qed

lemma findIndex_append_fresh:
  "\<forall>x \<in> set xs. \<not> P x \<Longrightarrow> P y \<Longrightarrow> findIndex P (xs @ [y]) = Some (length xs)"
  by (induction xs) auto

lemma splice1_last: "splice1 (length xs) (xs @ [y]) = xs"
  by (simp add: splice1_def)

section \<open>Trash, then restore\<close>

text \<open>
  For a session whose file is present, whose paths are separate, and whose id has no
  entry in the manifest yet: when both calls return normally, the file is back at its
  path with the same content and the manifest is what it was before, so it holds no
  entry for the id. (With an older entry of the same id in the manifest this fails, as
  the sample of two sessions named \<open>abc.jsonl\<close> shows.)
\<close>

lemma trash_restore_roundtrip:
  assumes present: "node_at fs (session_key E s) = Some (File c)"
    and sep: "separate_paths E s" and rsep: "separate_restore_paths E s"
    and fresh: "\<forall>i \<in> set (loadManifest E fs). item_id i \<noteq> id_s s"
    and t: "trashSession E now s r fs = (Inr res, fs1)"
    and rs: "restoreSession E (id_s s) fs1 = (Inr res', fs2)"
  shows "node_at fs2 (session_key E s) = Some (File c)
     \<and> loadManifest E fs2 = loadManifest E fs
     \<and> (\<forall>i \<in> set (loadManifest E fs2). item_id i \<noteq> id_s s)
     \<and> res' = (id_s s, restored_path E s)"
proof -
  let ?sk = "session_key E s" and ?dk = "trash_key E s" and ?mk = "manifest_key E"
  let ?tp = "join_path (TRASH_DIR E) (basename (filePath s))"
  let ?item = "new_item E now s r ?tp"
  let ?M = "loadManifest E fs"
  note st = trashSession_success_state[OF t sep]
  have M1: "loadManifest E fs1 = ?M @ [?item]" by (rule st(4))
  have d1: "node_at fs1 ?dk = Some (File c)" using st(3) present by simp
  have idx: "findIndex (\<lambda>i. item_id i = id_s s) (loadManifest E fs1) = Some (length ?M)"
    unfolding M1 using fresh by (intro findIndex_append_fresh) (simp_all add: new_item_def)
  have it: "loadManifest E fs1 ! length ?M = ?item" by (simp add: M1)
  have orig: "resolveOriginalPath E (originalPath ?item) = restored_path E s"
    by (simp add: new_item_def restored_path_def)
  have tp: "trashPath ?item = ?tp" by (simp add: new_item_def)
  let ?orig = "restored_path E s"
  from rs idx it orig obtain fsa where a: "mkdir E (dirname ?orig) fs1 = Inr fsa"
    by (cases "mkdir E (dirname ?orig) fs1") (simp_all add: restoreSession_def Let_def)
  from rs idx it orig tp a obtain fsb where b: "rename E ?tp ?orig fsa = Inr fsb"
    by (cases "rename E ?tp ?orig fsa") (simp_all add: restoreSession_def Let_def)
  define fsc where "fsc = move_companion E (replace_first ''.jsonl'' [] ?tp)
      (replace_first ''.jsonl'' [] ?orig) fsb"
  obtain rr ff where sv0: "saveManifest E (splice1 (length ?M) (loadManifest E fs1)) fsc = (rr, ff)"
    by (cases "saveManifest E (splice1 (length ?M) (loadManifest E fs1)) fsc")
  from rs idx it orig tp a b sv0 obtain u where "rr = Inr u" "ff = fs2"
    and res': "res' = (id_s s, ?orig)"
    by (cases rr) (simp_all add: restoreSession_def Let_def fsc_def)
  with sv0 have sv: "saveManifest E ?M fsc = (Inr u, fs2)" by (simp add: M1 splice1_last)
  have da: "node_at fsa ?dk = Some (File c)"
    using mkdir_key_keeps[OF a[unfolded mkdir_def] d1] .
  have rk: "rename_key ?dk ?sk fsa = Inr fsb"
    using b by (simp add: rename_def trash_key_def restored_key)
  from sep have ne: "?dk \<noteq> ?sk" "\<not> prefix ?sk ?mk" by (auto simp: separate_paths_def)
  have sb: "node_at fsb ?sk = Some (File c)"
    using rename_key_moved[OF rk ne(1)] da by simp
  have sc: "node_at fsc ?sk = Some (File c)"
    unfolding fsc_def using rsep sb
    by (subst move_companion_frame) (simp_all add: separate_restore_paths_def)
  have "?sk \<noteq> ?mk" using ne(2) by auto
  from saveManifest_success_frame[OF sv sc this] saveManifest_saved[OF sv] fresh res'
  show ?thesis by simp
qed

section \<open>Sessions found by the scanner\<close>

lemma join_entry_key:
  assumes "comps a = ks" "list_all entry_name ks" "entry_name c"
  shows "comps (join_path a c) = ks @ [c]" and "resolve_key wd (join_path a c) = ks @ [c]"
proof -
  show "comps (join_path a c) = ks @ [c]"
    using assms by (simp add: comps_join_entry norm_acc_names_id)
  then show "resolve_key wd (join_path a c) = ks @ [c]"
    using assms by (simp add: resolve_key_abs_comps isAbsolute_join norm_acc_names_id)
qed

lemma entry_name_jsonl: "entry_name stem \<Longrightarrow> entry_name (stem @ ''.jsonl'')"
  by (auto simp: entry_name_def segment_def dest!: arg_cong[where f = length])

lemma basename_last:
  assumes "comps p = ks @ [c]"
  shows "basename p = c"
proof (cases "comps p")
  case Nil
  with assms show ?thesis by simp
next
  case (Cons a as)
  then have "basename p = last (comps p)" by (simp add: basename_def)
  with assms show ?thesis by simp
qed

lemma plain_session_keys:
  assumes "plain_session E slug stem s"
  defines "P \<equiv> home_key E @ [''.claude'', ''projects'']"
      and "T \<equiv> home_key E @ [''.claude'', ''tools'', ''csesh'', ''trash'']"
  shows "session_key E s = P @ [slug, stem @ ''.jsonl'']"
    and "trash_key E s = T @ [stem @ ''.jsonl'']"
    and "companion_key E s = P @ [slug, stem]"
    and "companion_trash_key E s = T @ [stem]"
    and "restored_path E s = filePath s"
    and "basename (filePath s) = stem @ ''.jsonl''"
proof -
  from assms(1) have sl: "entry_name slug" and st: "entry_name stem"
    and fp: "filePath s = join_path (join_path (PROJECTS_DIR E) slug) (stem @ ''.jsonl'')"
    and cp: "replace_first ''.jsonl'' [] (filePath s) = join_path (join_path (PROJECTS_DIR E) slug) stem"
    unfolding plain_session_def by blast+
  have nm: "entry_name (stem @ ''.jsonl'')" using st by (rule entry_name_jsonl)
  have Pn: "list_all entry_name P" and Tn: "list_all entry_name T"
    using home_key_names[of E] by (simp_all add: P_def T_def entry_literals)
  have cP: "comps (PROJECTS_DIR E) = P" and cT: "comps (TRASH_DIR E) = T"
    by (simp_all add: P_def T_def dir_comps)
  have cPs: "comps (join_path (PROJECTS_DIR E) slug) = P @ [slug]"
    using join_entry_key(1)[OF cP Pn sl] .
  have Psn: "list_all entry_name (P @ [slug])" using Pn sl by simp
  have cfp: "comps (filePath s) = (P @ [slug]) @ [stem @ ''.jsonl'']"
    unfolding fp using join_entry_key(1)[OF cPs Psn nm] .
  show sk: "session_key E s = P @ [slug, stem @ ''.jsonl'']"
    unfolding session_key_def fp using join_entry_key(2)[OF cPs Psn nm] by simp
  show bn: "basename (filePath s) = stem @ ''.jsonl''"
    using basename_last[OF cfp] .
  show "trash_key E s = T @ [stem @ ''.jsonl'']"
    unfolding trash_key_def bn using join_entry_key(2)[OF cT Tn nm] .
  show "companion_key E s = P @ [slug, stem]"
    unfolding companion_key_def cp using join_entry_key(2)[OF cPs Psn st] by simp
  have "comps (join_path (join_path (PROJECTS_DIR E) slug) stem) = (P @ [slug]) @ [stem]"
    using join_entry_key(1)[OF cPs Psn st] .
  then have "basename (replace_first ''.jsonl'' [] (filePath s)) = stem"
    unfolding cp by (rule basename_last)
  then show "companion_trash_key E s = T @ [stem]"
    unfolding companion_trash_key_def using join_entry_key(2)[OF cT Tn st] by simp
  have "filePath s = path_str (P @ [slug, stem @ ''.jsonl''])"
    unfolding fp using cPs Psn nm
    by (simp add: join_path_entry norm_acc_names_id)
  then show "restored_path E s = filePath s" by (simp add: restored_path_eq sk)
qed

lemma plain_session_separate:
  assumes "plain_session E slug stem s"
  shows "separate_paths E s" and "separate_restore_paths E s"
proof -
  note k = plain_session_keys[OF assms]
  have ne: "stem \<noteq> stem @ ''.jsonl''" by simp
  show "separate_paths E s"
    by (simp add: separate_paths_def k dir_keys)
  from assms have tr: "replace_first ''.jsonl'' [] (join_path (TRASH_DIR E) (stem @ ''.jsonl''))
          = join_path (TRASH_DIR E) stem"
    and cp: "replace_first ''.jsonl'' [] (filePath s) = join_path (join_path (PROJECTS_DIR E) slug) stem"
    unfolding plain_session_def by blast+
  have 1: "resolve_key (cwd E) (replace_first ''.jsonl'' [] (join_path (TRASH_DIR E) (basename (filePath s))))
      = companion_trash_key E s"
  proof -
    have "resolve_key (cwd E) (join_path (TRASH_DIR E) stem) = companion_trash_key E s"
      using join_entry_key(2)[of "TRASH_DIR E" "home_key E @ [''.claude'', ''tools'', ''csesh'', ''trash'']" stem "cwd E"]
        home_key_names[of E] assms k(4)
      by (simp add: dir_comps entry_literals plain_session_def)
    then show ?thesis by (simp add: k(6) tr)
  qed
  have 2: "resolve_key (cwd E) (replace_first ''.jsonl'' [] (restored_path E s)) = companion_key E s"
    by (simp add: k(5) companion_key_def)
  show "separate_restore_paths E s"
    unfolding separate_restore_paths_def 1 2 by (simp add: k)
qed

text \<open>
  The round trip for the sessions the scanner finds, once and twice in a row.
\<close>

lemma plain_session_roundtrip:
  assumes "plain_session E slug stem s"
    and "node_at fs (session_key E s) = Some (File c)"
    and "\<forall>i \<in> set (loadManifest E fs). item_id i \<noteq> id_s s"
    and "trashSession E now s r fs = (Inr res, fs1)"
    and "restoreSession E (id_s s) fs1 = (Inr res', fs2)"
  shows "node_at fs2 (session_key E s) = Some (File c)
     \<and> loadManifest E fs2 = loadManifest E fs
     \<and> (\<forall>i \<in> set (loadManifest E fs2). item_id i \<noteq> id_s s)
     \<and> res' = (id_s s, filePath s)"
  using trash_restore_roundtrip[OF assms(2) plain_session_separate[OF assms(1)] assms(3,4,5)]
    plain_session_keys(5)[OF assms(1)]
  by simp

lemma plain_session_roundtrip_twice:
  assumes p: "plain_session E slug stem s"
    and c: "node_at fs (session_key E s) = Some (File c)"
    and f: "\<forall>i \<in> set (loadManifest E fs). item_id i \<noteq> id_s s"
    and t1: "trashSession E now s r fs = (Inr a, fs1)"
    and r1: "restoreSession E (id_s s) fs1 = (Inr b, fs2)"
    and t2: "trashSession E now' s r' fs2 = (Inr a', fs3)"
    and r2: "restoreSession E (id_s s) fs3 = (Inr b', fs4)"
  shows "node_at fs4 (session_key E s) = node_at fs2 (session_key E s)
     \<and> node_at fs4 (session_key E s) = Some (File c)
     \<and> loadManifest E fs4 = loadManifest E fs2
     \<and> b' = b"
proof -
  note one = plain_session_roundtrip[OF p c f t1 r1]
  then have c2: "node_at fs2 (session_key E s) = Some (File c)"
    and f2: "\<forall>i \<in> set (loadManifest E fs2). item_id i \<noteq> id_s s" by simp_all
  from plain_session_roundtrip[OF p c2 f2 t2 r2] one show ?thesis by simp
qed

section \<open>Trash, restore and purge on the sample home directory\<close>

text \<open>
  C1. The code breaks the claim: sessions A and B live in different projects under the same
  file name. Both are trashed without error; the second move lands on the trash slot of
  the first, and afterwards the content of A is in no file of the file system.
\<close>

theorem trash_same_basename_overwrites:
  "basename (filePath session_A) = basename (filePath session_B)
   \<and> filePath session_A \<noteq> filePath session_B
   \<and> fst (trashSession E0 ''t1'' session_A ''manual'' fs_start) = Inr (''abc'', trash_path)
   \<and> node_at fs_A_trashed key_trash = Some (File (Text ''A''))
   \<and> fst (trashSession E0 ''t2'' session_B ''manual'' fs_A_trashed) = Inr (''abc'', trash_path)
   \<and> node_at fs_B_trashed key_trash = Some (File (Text ''B''))
   \<and> File (Text ''A'') \<notin> snd ` set (nodes fs_B_trashed)"
  by code_simp

text \<open>
  C3. The code breaks the claim where the manifest already holds an entry of the same
  id: with A in the trash, session B is present at its original path; trashing B and
  restoring \<open>abc\<close> puts the content of B at the path of A, leaves the path of B empty and
  an entry for \<open>abc\<close> in the manifest, and a second restore fails.
\<close>

theorem roundtrip_after_collision:
  "node_at fs_A_trashed key_B = Some (File (Text ''B''))
   \<and> id_s session_B = ''abc''
   \<and> fst (trashSession E0 ''t2'' session_B ''manual'' fs_A_trashed) = Inr (''abc'', trash_path)
   \<and> fst (restoreSession E0 ''abc'' fs_B_trashed) = Inr (''abc'', path_A)
   \<and> node_at fs_restored key_B = None
   \<and> node_at fs_restored key_A = Some (File (Text ''B''))
   \<and> map item_id (loadManifest E0 fs_restored) = [''abc'']
   \<and> fst (restoreSession E0 ''abc'' fs_restored) = Inl ENOENT"
  by code_simp





text \<open>
  The round trip on the sample: session A, alone, is trashed and restored.
\<close>

lemma roundtrip_sample:
  "plain_session E0 ''pa'' ''abc'' session_A
   \<and> loadManifest E0 fs_start = []
   \<and> fst (trashSession E0 ''t1'' session_A ''manual'' fs_start) = Inr (''abc'', trash_path)
   \<and> fst (restoreSession E0 ''abc'' fs_A_trashed) = Inr (''abc'', path_A)
   \<and> node_at (snd (restoreSession E0 ''abc'' fs_A_trashed)) key_A = Some (File (Text ''A''))
   \<and> loadManifest E0 (snd (restoreSession E0 ''abc'' fs_A_trashed)) = []"
  by code_simp

end
